theory Spec2Isabelle
  imports Main "HOL-Library.AList" "HOL-Library.Word"
begin

unbundle bit_operations_syntax

section \<open>Go maps\<close>

text \<open>
  A Go map is modelled as an association list whose keys are pairwise distinct; the
  order of the list carries no meaning.  \<open>len(m)\<close> is the length of the list,
  \<open>m[k] = v\<close> is \<open>AList.update\<close>, \<open>delete(m, k)\<close> is \<open>AList.delete\<close>
  and \<open>v, ok := m[k]\<close> is \<open>map_of\<close>.

  The statement \<open>for k := range m { ...; break }\<close> visits one entry that the Go
  runtime chooses.  The choice is an explicit argument \<open>pick\<close>: the entry visited is
  the one at position \<open>pick mod len(m)\<close>, so every natural number is a legal choice and
  every entry can be chosen.  On an empty map the loop body is not run.
\<close>

type_synonym ULID = string

type_synonym 'v gomap = "(ULID \<times> 'v) list"

definition range_first :: "nat \<Rightarrow> 'v gomap \<Rightarrow> ULID option" where
  "range_first pick m = (if m = [] then None else Some (fst (m ! (pick mod length m))))"

section \<open>cache.go: the single-keyed cache\<close>

text \<open>
  \<open>Cache1[T]\<close>.  The entity type \<open>T\<close> is the type variable \<open>'v\<close>; its method
  \<open>GetKey\<close> is passed to the operations that call it.  The cache stores pointers in
  Go; the model stores the entities.  The admission checker is an interface value that
  may be nil; it is a predicate on the stored entries and the candidate entity.
  \<open>Set\<close> is \<open>Set1\<close> here; the methods of \<open>Cache2\<close> that share a name with one
  of \<open>Cache1\<close> carry the suffix 2.  \<open>MaxSize\<close> and the counts are Go \<open>int\<close>s
  that stay far from the ends of their range; they are integers.
\<close>

record 'v Cache1 =
  Checker :: "('v gomap \<Rightarrow> 'v \<Rightarrow> bool) option"
  DontInsertIfOverflow :: bool
  MaxSize :: int
  Cache :: "'v gomap"

definition resize ::
  "('v \<Rightarrow> ULID) \<Rightarrow> nat \<Rightarrow> 'v Cache1 \<Rightarrow> 'v \<Rightarrow> bool \<times> 'v Cache1" where
  "resize GetKey pick c e =
     (if MaxSize c = 0 then (False, c)
      else if MaxSize c > 0 then
        (if (case Checker c of None \<Rightarrow> False | Some chk \<Rightarrow> \<not> chk (Cache c) e)
         then (False, c)
         else if int (length (Cache c)) \<ge> MaxSize c then
           (if DontInsertIfOverflow c then (False, c)
            else
              (let evicted = (case range_first pick (Cache c) of
                                None \<Rightarrow> Cache c
                              | Some k \<Rightarrow> AList.delete k (Cache c))
               in (True, c\<lparr>Cache := AList.update (GetKey e) e evicted\<rparr>)))
         else (True, c\<lparr>Cache := AList.update (GetKey e) e (Cache c)\<rparr>))
      else (True, c))"

definition Get :: "'v Cache1 \<Rightarrow> ULID \<Rightarrow> 'v option" where
  "Get c ident = map_of (Cache c) ident"

definition Del :: "'v Cache1 \<Rightarrow> ULID \<Rightarrow> 'v Cache1" where
  "Del c ident = c\<lparr>Cache := AList.delete ident (Cache c)\<rparr>"

definition Set1 :: "('v \<Rightarrow> ULID) \<Rightarrow> nat \<Rightarrow> 'v Cache1 \<Rightarrow> 'v \<Rightarrow> 'v Cache1" where
  "Set1 GetKey pick c v =
     (case resize GetKey pick c v of
        (False, c') \<Rightarrow> c'
      | (True, c') \<Rightarrow> c'\<lparr>Cache := AList.update (GetKey v) v (Cache c')\<rparr>)"

definition Size :: "'v Cache1 \<Rightarrow> int" where
  "Size c = int (length (Cache c))"

text \<open>A run of \<open>Set\<close> calls; each call comes with the runtime's choice for its eviction.\<close>

fun Set1_all :: "('v \<Rightarrow> ULID) \<Rightarrow> 'v Cache1 \<Rightarrow> (nat \<times> 'v) list \<Rightarrow> 'v Cache1" where
  "Set1_all GetKey c [] = c"
| "Set1_all GetKey c ((pick, v) # rest) = Set1_all GetKey (Set1 GetKey pick c v) rest"

section \<open>cache.go: the parent-scoped cache\<close>

text \<open>
  \<open>Cache2[T]\<close>: a map from the parent to the map of its members, and the running
  count \<open>total\<close> that \<open>Size\<close> returns.  Fields whose names \<open>Cache1\<close> already uses
  carry the suffix 2.  The checker is a predicate on the groups, the parent and the
  candidate entity.
\<close>

record 'v Cache2 =
  Checker2 :: "((ULID \<times> 'v gomap) list \<Rightarrow> ULID \<Rightarrow> 'v \<Rightarrow> bool) option"
  MaxSize1 :: int
  MaxSize2 :: int
  TotalMaxSize :: int
  total :: int
  DontInsertIfOverflow2 :: bool
  Cache2 :: "(ULID \<times> 'v gomap) list"

text \<open>
  \<open>del\<close>: a lookup of an absent parent yields the nil map, on which the inner lookup
  fails and \<open>delete\<close> does nothing.
\<close>

definition del :: "'v Cache2 \<Rightarrow> ULID \<Rightarrow> ULID \<Rightarrow> 'v Cache2" where
  "del c parent ident =
     (case map_of (Cache2 c) parent of
        None \<Rightarrow> c
      | Some p \<Rightarrow>
          (case map_of p ident of
             None \<Rightarrow> c
           | Some _ \<Rightarrow> c\<lparr>Cache2 := AList.update parent (AList.delete ident p) (Cache2 c),
                           total := total c - 1\<rparr>))"

definition ins :: "('v \<Rightarrow> ULID) \<Rightarrow> 'v Cache2 \<Rightarrow> ULID \<Rightarrow> 'v \<Rightarrow> 'v Cache2" where
  "ins GetKey c parent e =
     (case map_of (Cache2 c) parent of
        None \<Rightarrow> c\<lparr>Cache2 := AList.update parent [(GetKey e, e)] (Cache2 c),
                     total := total c + 1\<rparr>
      | Some m \<Rightarrow>
          (let i = GetKey e in
           c\<lparr>Cache2 := AList.update parent (AList.update i e m) (Cache2 c),
              total := (if map_of m i = None then total c + 1 else total c)\<rparr>))"

text \<open>
  The choices of the runtime in \<open>resize\<close>: \<open>inner k1\<close> for the range over the group
  \<open>k1\<close> inside the loop of the total cap, \<open>member\<close> for the range over the parent's
  group, \<open>group\<close> for the range over the groups.
\<close>

record picks =
  inner :: "ULID \<Rightarrow> nat"
  member :: nat
  group :: nat

text \<open>One turn of the outer loop of the total cap: \<open>for k2 := range v1 { c.del(k1, k2); break }\<close>.\<close>

definition evict_in_group :: "(ULID \<Rightarrow> nat) \<Rightarrow> 'v Cache2 \<Rightarrow> ULID \<Rightarrow> 'v Cache2" where
  "evict_in_group pk c k1 =
     (case map_of (Cache2 c) k1 of
        None \<Rightarrow> c
      | Some v1 \<Rightarrow> (case range_first (pk k1) v1 of None \<Rightarrow> c | Some k2 \<Rightarrow> del c k1 k2))"

text \<open>
  The outer loop \<open>for k1, v1 := range c.Cache\<close> has no \<open>break\<close> of its own: it visits
  every group.  The groups do not depend on one another, so the order of the visit does
  not change the result.
\<close>

definition evict_each_group :: "(ULID \<Rightarrow> nat) \<Rightarrow> 'v Cache2 \<Rightarrow> 'v Cache2" where
  "evict_each_group pk c = foldl (evict_in_group pk) c (map fst (Cache2 c))"

text \<open>
  The tail of \<open>resize\<close>, after the total cap: \<open>o, k := c.Cache[parent]\<close> and the two
  evictions.  With \<open>k\<close> true only the eviction of a member can run (the eviction of a
  group asks for \<open>!k\<close>); with \<open>k\<close> false only the eviction of a group can.  A range
  over an empty map runs no turn and the function goes on to \<open>return true\<close>.
\<close>

definition evict_member_or_group :: "picks \<Rightarrow> 'v Cache2 \<Rightarrow> ULID \<Rightarrow> 'v Cache2" where
  "evict_member_or_group pk c parent =
     (case map_of (Cache2 c) parent of
        Some ms \<Rightarrow>
          (if MaxSize2 c \<noteq> 0 \<and> int (length ms) \<ge> MaxSize2 c then
             (case range_first (member pk) ms of
                None \<Rightarrow> c
              | Some k \<Rightarrow> del c parent k)
           else c)
      | None \<Rightarrow>
          (if MaxSize1 c \<noteq> 0 \<and> int (length (Cache2 c)) \<ge> MaxSize1 c then
             (case range_first (group pk) (Cache2 c) of
                None \<Rightarrow> c
              | Some k \<Rightarrow>
                  c\<lparr>total := total c
                        - (case map_of (Cache2 c) k of None \<Rightarrow> 0 | Some m \<Rightarrow> int (length m)),
                    Cache2 := AList.delete k (Cache2 c)\<rparr>)
           else c))"

definition resize2 ::
  "('v \<Rightarrow> ULID) \<Rightarrow> picks \<Rightarrow> 'v Cache2 \<Rightarrow> ULID \<Rightarrow> 'v \<Rightarrow> bool \<times> 'v Cache2" where
  "resize2 GetKey pk c parent e =
     (if MaxSize1 c = 0 \<and> MaxSize2 c = 0 \<and> TotalMaxSize c = 0 then (False, c)
      else if TotalMaxSize c < 0 \<or> MaxSize1 c > 0 then
        (if (case Checker2 c of None \<Rightarrow> False | Some chk \<Rightarrow> \<not> chk (Cache2 c) parent e)
         then (False, c)
         else if MaxSize1 c = 0 \<and> MaxSize2 c = 0 \<and> total c = TotalMaxSize c then
           (if DontInsertIfOverflow2 c then (False, c)
            else (True, evict_member_or_group pk (evict_each_group (inner pk) c) parent))
         else (True, evict_member_or_group pk c parent))
      else (True, c))"

definition Get2 :: "'v Cache2 \<Rightarrow> ULID \<Rightarrow> ULID \<Rightarrow> 'v option" where
  "Get2 c parent ident =
     (case map_of (Cache2 c) parent of None \<Rightarrow> None | Some m \<Rightarrow> map_of m ident)"

definition Del2 :: "'v Cache2 \<Rightarrow> ULID \<Rightarrow> ULID \<Rightarrow> 'v Cache2" where
  "Del2 c parent ident = del c parent ident"

definition DelGroup :: "'v Cache2 \<Rightarrow> ULID \<Rightarrow> 'v Cache2" where
  "DelGroup c parent =
     (case map_of (Cache2 c) parent of
        None \<Rightarrow> c
      | Some m \<Rightarrow> c\<lparr>total := total c - int (length m),
                      Cache2 := AList.delete parent (Cache2 c)\<rparr>)"

definition GroupsCount :: "'v Cache2 \<Rightarrow> int" where
  "GroupsCount c = int (length (Cache2 c))"

definition Size2 :: "'v Cache2 \<Rightarrow> int" where
  "Size2 c = total c"

definition Set2 :: "('v \<Rightarrow> ULID) \<Rightarrow> picks \<Rightarrow> 'v Cache2 \<Rightarrow> ULID \<Rightarrow> 'v \<Rightarrow> 'v Cache2" where
  "Set2 GetKey pk c parent v =
     (case resize2 GetKey pk c parent v of
        (True, c') \<Rightarrow> ins GetKey c' parent v
      | (False, c') \<Rightarrow> c')"

section \<open>cache.go: partial updates\<close>

text \<open>
  \<open>PartiallyUpdate\<close> hands the stored entity to a closure that mutates it in place.
  The closure may also change what it has captured and it may panic; it is a function
  from the entity and its environment \<open>'w\<close> to a panic or the new entity and the new
  environment.  A closure that is never called leaves both as they were.
\<close>

datatype panic = Panic string

type_synonym ('v, 'w) updater = "'v \<Rightarrow> 'w \<Rightarrow> panic + ('v \<times> 'w)"

definition PartiallyUpdate ::
  "'v Cache1 \<Rightarrow> ULID \<Rightarrow> ('v, 'w) updater \<Rightarrow> 'w \<Rightarrow> panic + ('v Cache1 \<times> 'w)" where
  "PartiallyUpdate c ident updater w =
     (case map_of (Cache c) ident of
        None \<Rightarrow> Inr (c, w)
      | Some x \<Rightarrow>
          (case updater x w of
             Inl p \<Rightarrow> Inl p
           | Inr (x', w') \<Rightarrow> Inr (c\<lparr>Cache := AList.update ident x' (Cache c)\<rparr>, w')))"

definition PartiallyUpdate2 ::
  "'v Cache2 \<Rightarrow> ULID \<Rightarrow> ULID \<Rightarrow> ('v, 'w) updater \<Rightarrow> 'w \<Rightarrow> panic + ('v Cache2 \<times> 'w)" where
  "PartiallyUpdate2 c parent ident updater w =
     (case map_of (Cache2 c) parent of
        None \<Rightarrow> Inr (c, w)
      | Some x \<Rightarrow>
          (case map_of x ident of
             None \<Rightarrow> Inr (c, w)
           | Some y \<Rightarrow>
               (case updater y w of
                  Inl p \<Rightarrow> Inl p
                | Inr (y', w') \<Rightarrow>
                    Inr (c\<lparr>Cache2 := AList.update parent (AList.update ident y' x) (Cache2 c)\<rparr>, w'))))"

text \<open>
  The states of a parent-scoped cache that its operations reach from the cache as
  \<open>init\<close> leaves it: no group, \<open>total\<close> zero, any configuration.  What a closure
  has captured does not reach the cache, so the closures here capture nothing.
\<close>

inductive reachable2 :: "('v \<Rightarrow> ULID) \<Rightarrow> 'v Cache2 \<Rightarrow> bool" for GetKey :: "'v \<Rightarrow> ULID" where
  r_init: "Cache2 c = [] \<Longrightarrow> total c = 0 \<Longrightarrow> reachable2 GetKey c"
| r_Set: "reachable2 GetKey c \<Longrightarrow> reachable2 GetKey (Set2 GetKey pk c parent v)"
| r_Del: "reachable2 GetKey c \<Longrightarrow> reachable2 GetKey (Del2 c parent ident)"
| r_DelGroup: "reachable2 GetKey c \<Longrightarrow> reachable2 GetKey (DelGroup c parent)"
| r_PartiallyUpdate:
    "reachable2 GetKey c \<Longrightarrow> PartiallyUpdate2 c parent ident updater (w :: unit) = Inr (c', w')
     \<Longrightarrow> reachable2 GetKey c'"

text \<open>The entries a lookup finds: the pairs of a parent and an identifier that \<open>Get\<close> answers.\<close>

definition entries2 :: "'v Cache2 \<Rightarrow> (ULID \<times> ULID) set" where
  "entries2 c = {(parent, ident). Get2 c parent ident \<noteq> None}"

definition members2 :: "'v Cache2 \<Rightarrow> ULID \<Rightarrow> ULID set" where
  "members2 c parent = {ident. Get2 c parent ident \<noteq> None}"

section \<open>Invariant of the parent-scoped cache\<close>

text \<open>
  The invariant of the parent-scoped cache: the keys of the groups and of the members
  of each group are distinct (the lists are maps), and \<open>total\<close> is the number of
  members over all groups.
\<close>

definition count2 :: "(ULID \<times> 'v gomap) list \<Rightarrow> nat" where
  "count2 G = sum_list (map (\<lambda>pg. length (snd pg)) G)"

definition wf2 :: "'v Cache2 \<Rightarrow> bool" where
  "wf2 c = (distinct (map fst (Cache2 c))
            \<and> list_all (\<lambda>pg. distinct (map fst (snd pg))) (Cache2 c)
            \<and> total c = int (count2 (Cache2 c)))"

definition found_in :: "(ULID \<times> 'v gomap) list \<Rightarrow> (ULID \<times> ULID) set" where
  "found_in G = {(p, i). \<exists>g. map_of G p = Some g \<and> map_of g i \<noteq> None}"

section \<open>events.go: the event controller\<close>

text \<open>
  A registered callback is a Go closure of type \<open>func(T)\<close>.  What a closure does here:
  it runs its body on what it has captured (the environment \<open>'w\<close>: the caches, the
  variables of the user), which may panic, and it calls \<open>Delete\<close> on the subscriptions
  of this controller whose identifiers it lists.  A closure that calls \<open>Listen\<close> or
  \<open>Override\<close> on the controller that is emitting is outside the model.
\<close>

datatype ('t, 'w) func = Func (body: "'t \<Rightarrow> 'w \<Rightarrow> panic + 'w") (unsubscribes: "int list")

text \<open>
  \<open>EventController[T]\<close>: the map \<open>ls\<close> from subscription identifiers to closures and
  the counter \<open>id\<close> (here \<open>id_ec\<close>).  A \<open>Subscription\<close> is its \<open>ID\<close>; its
  \<open>Controller\<close> is the controller of the world.
\<close>

record ('t, 'w) EventController =
  ls :: "(int \<times> ('t, 'w) func) list"
  id_ec :: int

record ('t, 'w) world =
  ec :: "('t, 'w) EventController"
  env :: 'w

definition inc :: "('t, 'w) EventController \<Rightarrow> int \<times> ('t, 'w) EventController" where
  "inc c = (id_ec c + 1, c\<lparr>id_ec := id_ec c + 1\<rparr>)"

definition Delete :: "int \<Rightarrow> ('t, 'w) EventController \<Rightarrow> ('t, 'w) EventController" where
  "Delete s c = c\<lparr>ls := AList.delete s (ls c)\<rparr>"

definition Listen ::
  "('t, 'w) func \<Rightarrow> ('t, 'w) EventController \<Rightarrow> int \<times> ('t, 'w) EventController" where
  "Listen f c = (case inc c of (i, c') \<Rightarrow> (i, c'\<lparr>ls := AList.update i f (ls c')\<rparr>))"

definition Override ::
  "('t, 'w) func \<Rightarrow> ('t, 'w) EventController \<Rightarrow> int \<times> ('t, 'w) EventController" where
  "Override f c = Listen f (c\<lparr>ls := []\<rparr>)"

definition call :: "('t, 'w) func \<Rightarrow> 't \<Rightarrow> ('t, 'w) world \<Rightarrow> panic + ('t, 'w) world" where
  "call g t w =
     (case body g t (env w) of
        Inl p \<Rightarrow> Inl p
      | Inr e \<Rightarrow> Inr \<lparr>ec = fold Delete (unsubscribes g) (ec w), env = e\<rparr>)"

text \<open>
  \<open>Emit\<close>: \<open>for _, g := range ec.ls { g(t) }\<close>.  The range visits the entries that the
  map holds when the loop starts, in an order that the runtime chooses: the order of the
  list, which is arbitrary.  An entry removed before the range reaches it is not visited
  (the Go specification); this is the lookup in the current controller at each turn.
\<close>

fun Emit_range :: "int list \<Rightarrow> 't \<Rightarrow> ('t, 'w) world \<Rightarrow> panic + ('t, 'w) world" where
  "Emit_range [] t w = Inr w"
| "Emit_range (k # ks) t w =
     (case map_of (ls (ec w)) k of
        None \<Rightarrow> Emit_range ks t w
      | Some g \<Rightarrow> (case call g t w of Inl p \<Rightarrow> Inl p | Inr w' \<Rightarrow> Emit_range ks t w'))"

definition Emit :: "'t \<Rightarrow> ('t, 'w) world \<Rightarrow> panic + ('t, 'w) world" where
  "Emit t w = Emit_range (map fst (ls (ec w))) t w"

text \<open>
  A goroutine started by \<open>go\<close> is returned as a pending step on the world; it runs
  later, on the world as it is then.  \<open>EmitAndCall\<close> calls \<open>f\<close> at once when nothing
  is registered; otherwise it starts one goroutine whose body is \<open>x.Emit(y)\<close> followed
  by \<open>z(y)\<close>, in this order.
\<close>

type_synonym ('t, 'w) goroutine = "('t, 'w) world \<Rightarrow> panic + ('t, 'w) world"

definition EmitInGoroutines :: "'t \<Rightarrow> ('t, 'w) world \<Rightarrow> ('t, 'w) goroutine list" where
  "EmitInGoroutines t w = (if length (ls (ec w)) = 0 then [] else [Emit t])"

definition call_plain ::
  "('t \<Rightarrow> 'w \<Rightarrow> panic + 'w) \<Rightarrow> 't \<Rightarrow> ('t, 'w) world \<Rightarrow> panic + ('t, 'w) world" where
  "call_plain f t w = (case f t (env w) of Inl p \<Rightarrow> Inl p | Inr e \<Rightarrow> Inr (w\<lparr>env := e\<rparr>))"

definition EmitAndCall ::
  "'t \<Rightarrow> ('t \<Rightarrow> 'w \<Rightarrow> panic + 'w) \<Rightarrow> ('t, 'w) world
     \<Rightarrow> (panic + ('t, 'w) world) \<times> ('t, 'w) goroutine list" where
  "EmitAndCall t f w =
     (if length (ls (ec w)) = 0 then (call_plain f t w, [])
      else (Inr w, [\<lambda>x. case Emit t x of Inl p \<Rightarrow> Inl p | Inr y \<Rightarrow> call_plain f t y]))"

fun run_goroutines :: "('t, 'w) goroutine list \<Rightarrow> ('t, 'w) world \<Rightarrow> panic + ('t, 'w) world" where
  "run_goroutines [] w = Inr w"
| "run_goroutines (g # gs) w = (case g w of Inl p \<Rightarrow> Inl p | Inr w' \<Rightarrow> run_goroutines gs w')"

text \<open>
  What an emission is compared with: the bodies of the registered closures, each run once,
  in the order of the registry, stopping at a panic.
\<close>

definition env_of :: "panic + ('t, 'w) world \<Rightarrow> panic + 'w" where
  "env_of r = (case r of Inl p \<Rightarrow> Inl p | Inr w \<Rightarrow> Inr (env w))"

fun run_bodies :: "('t, 'w) func list \<Rightarrow> 't \<Rightarrow> 'w \<Rightarrow> panic + 'w" where
  "run_bodies [] t e = Inr e"
| "run_bodies (g # gs) t e =
     (case body g t e of Inl p \<Rightarrow> Inl p | Inr e' \<Rightarrow> run_bodies gs t e')"

text \<open>Every closure of the registry removes no subscription but, possibly, its own.\<close>

definition removes_only_itself :: "(int \<times> ('t, 'w) func) list \<Rightarrow> bool" where
  "removes_only_itself L = list_all (\<lambda>kg. list_all (\<lambda>s. s = fst kg) (unsubscribes (snd kg))) L"

section \<open>socket.go: the MessageUpdate frame\<close>

text \<open>
  The fields of the cached message that the handlers and the example use; the embeds are
  of a type \<open>'oe\<close> and the conversion \<open>ToOptimized\<close> from the wire type \<open>'e\<close> is an
  argument.  Fields of the wire records whose names the cached records already use carry
  the suffix \<open>_p\<close>.
\<close>

record 'oe OptimizedMessage =
  ID :: ULID
  Content :: string
  Embeds :: "'oe list"

record 'e PartialMessage =
  Content_p :: "string option"
  Embeds_p :: "'e list option"

record 'e MessageUpdate =
  MessageID :: ULID
  Channel :: ULID
  Data :: "'e PartialMessage option"

text \<open>
  What the closures of the MessageUpdate case capture: the message cache of the socket,
  and \<open>user\<close>, the variables of the subscribers.
\<close>

record ('oe, 'u) client =
  Messages :: "'oe OptimizedMessage Cache2"
  user :: 'u

text \<open>
  The closure handed to \<open>PartiallyUpdate\<close>.  \<open>r.Data\<close> is a pointer; dereferencing
  nil panics.
\<close>

definition MessageUpdate_mutator ::
  "('e \<Rightarrow> 'oe) \<Rightarrow> 'e MessageUpdate \<Rightarrow> 'oe OptimizedMessage \<Rightarrow> panic + 'oe OptimizedMessage" where
  "MessageUpdate_mutator ToOptimized r m =
     (case Data r of
        None \<Rightarrow> Inl (Panic ''nil pointer dereference'')
      | Some d \<Rightarrow>
          (let m1 = (case Content_p d of None \<Rightarrow> m | Some s \<Rightarrow> m\<lparr>Content := s\<rparr>);
               m2 = (case Embeds_p d of None \<Rightarrow> m1
                     | Some es \<Rightarrow> m1\<lparr>Embeds := map ToOptimized es\<rparr>)
           in Inr m2))"

definition MessageUpdate_followUp ::
  "('e \<Rightarrow> 'oe) \<Rightarrow> 'e MessageUpdate \<Rightarrow> ('oe, 'u) client \<Rightarrow> panic + ('oe, 'u) client" where
  "MessageUpdate_followUp ToOptimized r s =
     (case PartiallyUpdate2 (Messages s) (Channel r) (MessageID r)
             (\<lambda>m u. case MessageUpdate_mutator ToOptimized r m of
                       Inl p \<Rightarrow> Inl p
                     | Inr m' \<Rightarrow> Inr (m', u)) () of
        Inl p \<Rightarrow> Inl p
      | Inr (c, u) \<Rightarrow> Inr (s\<lparr>Messages := c\<rparr>))"

text \<open>The MessageUpdate case of \<open>process\<close>, after the frame is decoded.\<close>

definition process_MessageUpdate ::
  "('e \<Rightarrow> 'oe) \<Rightarrow> 'e MessageUpdate \<Rightarrow> ('e MessageUpdate, ('oe, 'u) client) world
     \<Rightarrow> (panic + ('e MessageUpdate, ('oe, 'u) client) world)
        \<times> ('e MessageUpdate, ('oe, 'u) client) goroutine list" where
  "process_MessageUpdate ToOptimized t w = EmitAndCall t (MessageUpdate_followUp ToOptimized) w"

text \<open>
  The subscriber of the repository's example: it looks the message of the event up in the
  cache and records its content (nothing when the message is not cached).
\<close>

definition reads_message :: "('e MessageUpdate, ('oe, string option list) client) func" where
  "reads_message =
     Func (\<lambda>event s.
             Inr (s\<lparr>user := user s
                     @ [map_option Content (Get2 (Messages s) (Channel event) (MessageID event))]\<rparr>))
          []"

section \<open>socket.go: frames and the effects of the read loop\<close>

text \<open>
  JSON values, which are also the values that \<open>json.Unmarshal\<close> stores in a
  \<open>map[string]any\<close>.  The text of a number is kept as it is; no handler reads it
  from the map.  An object holds its members as the decoder stores them in a Go map: the
  keys are distinct (of a repeated key the decoder keeps the last value).
\<close>

datatype json =
    JNull
  | JBool bool
  | JNumber string
  | JString string
  | JArray "json list"
  | JObject "(string \<times> json) list"

text \<open>
  The JSON decoders are collaborators (the standard library and the injectable codec),
  so a byte slice handed to \<open>process\<close> is given by what they return on it:
  \<open>parsed\<close> is the JSON value that the bytes spell, or \<open>None\<close> when they are not
  JSON; \<open>typed\<close> tells whether \<open>socket.unmarshal(s, &t)\<close> into the struct of the
  frame's type succeeds; \<open>bulk\<close> holds the byte slices of the field \<open>v\<close> of a Bulk
  frame.
\<close>

datatype frame =
  Frame (parsed: "json option") (typed: bool) (bulk: "frame list")

text \<open>
  \<open>json.Unmarshal(s, &a)\<close> with \<open>a\<close> a nil \<open>map[string]any\<close>, as the standard
  library defines it: an object fills the map; \<open>null\<close> is no error and leaves the map
  nil, which reads as the empty map; bytes that are not JSON, and an array, a number, a
  string or a boolean, are an error.
\<close>

fun Unmarshal_map :: "json option \<Rightarrow> (string \<times> json) list option" where
  "Unmarshal_map None = None"
| "Unmarshal_map (Some (JObject m)) = Some m"
| "Unmarshal_map (Some JNull) = Some []"
| "Unmarshal_map (Some (JBool b)) = None"
| "Unmarshal_map (Some (JNumber n)) = None"
| "Unmarshal_map (Some (JString x)) = None"
| "Unmarshal_map (Some (JArray xs)) = None"

text \<open>
  What the read loop does, as a trace: the emissions on the controllers (\<open>emitError\<close>
  is \<open>socket.emitError\<close>, which emits on the Error controller in a goroutine;
  \<open>Error_Emit\<close> is the synchronous \<open>socket.Events.Error.Emit\<close>), the assignment of
  \<open>lastPingRes\<close>, the warning for an unknown type, the sleep before a reconnect,
  \<open>socket.close()\<close> and \<open>socket.Open()\<close>.  The other log lines are left out.
\<close>

datatype effect =
    Raw_EmitInGoroutines
  | RevoltError_Emit string
  | emitError
  | EmitInGoroutines_of string
  | EmitAndCall_of string
  | set_lastPingRes
  | logWarn string
  | Error_Emit
  | Sleep_3s
  | close_internals
  | Open

text \<open>The cases of the switch that end in \<open>EmitAndCall\<close>, and those that end in
  \<open>EmitInGoroutines\<close> after decoding the frame.\<close>

definition cache_frames :: "string list" where
  "cache_frames =
     [''Ready'', ''Message'', ''MessageUpdate'', ''MessageAppend'', ''MessageDelete'',
      ''BulkDeleteMessage'', ''ChannelCreate'', ''ChannelUpdate'', ''ChannelDelete'',
      ''ServerCreate'', ''ServerUpdate'', ''ServerDelete'', ''ServerMemberJoin'',
      ''ServerRoleUpdate'', ''ServerRoleDelete'', ''UserUpdate'', ''UserRelationship'',
      ''EmojiCreate'', ''EmojiDelete'', ''WebhookCreate'', ''WebhookUpdate'', ''WebhookDelete'']"

definition publish_frames :: "string list" where
  "publish_frames =
     [''MessageReact'', ''MessageUnreact'', ''MessageRemoveReaction'', ''ChannelGroupJoin'',
      ''ChannelGroupLeave'', ''ChannelStartTyping'', ''ChannelStopTyping'', ''ChannelAck'',
      ''ServerMemberUpdate'', ''ServerMemberLeave'', ''UserSettingsUpdate'',
      ''UserPlatformWipe'', ''ReportCreate'', ''Auth'']"

text \<open>
  \<open>process\<close>.  The body of a case after its frame is decoded (the emission, the
  follow-up on the cache, and in the ServerRoleUpdate case the test on \<open>t.Data\<close>) is
  the argument \<open>H\<close>; it may panic.  A panic ends \<open>process\<close>, and with it the program:
  nothing in the repository recovers.
\<close>

type_synonym handlers = "string \<Rightarrow> frame \<Rightarrow> panic + effect list"

fun process :: "handlers \<Rightarrow> frame \<Rightarrow> panic + effect list"
  and process_each :: "handlers \<Rightarrow> frame list \<Rightarrow> panic + effect list" where
  "process H (Frame j ok us) =
     (case Unmarshal_map j of
        None \<Rightarrow> Inr []
      | Some a \<Rightarrow>
          (case map_of a ''type'' of
             Some (JString typ) \<Rightarrow>
               (if typ = ''Error'' then
                  (case map_of a ''error'' of
                     Some (JString e) \<Rightarrow> Inr [Raw_EmitInGoroutines, RevoltError_Emit e]
                   | _ \<Rightarrow> Inl (Panic ''interface conversion''))
                else if typ = ''NotFound'' then
                  Inr [Raw_EmitInGoroutines, RevoltError_Emit ''InvalidSession'']
                else if typ = ''Authenticated'' then
                  Inr [Raw_EmitInGoroutines, EmitInGoroutines_of ''Authenticated'']
                else if typ = ''Bulk'' then
                  (if \<not> ok then Inr [Raw_EmitInGoroutines, emitError]
                   else (case process_each H us of
                           Inl p \<Rightarrow> Inl p
                         | Inr es \<Rightarrow> Inr (Raw_EmitInGoroutines # es)))
                else if typ = ''Pong'' then
                  (if \<not> ok then Inr [Raw_EmitInGoroutines, emitError]
                   else Inr [Raw_EmitInGoroutines, set_lastPingRes])
                else if typ \<in> set cache_frames \<or> typ \<in> set publish_frames then
                  (if \<not> ok then Inr [Raw_EmitInGoroutines, emitError]
                   else (case H typ (Frame j ok us) of
                           Inl p \<Rightarrow> Inl p
                         | Inr es \<Rightarrow> Inr (Raw_EmitInGoroutines # es)))
                else Inr [Raw_EmitInGoroutines, logWarn typ])
           | _ \<Rightarrow> Inl (Panic ''interface conversion'')))"
| "process_each H [] = Inr []"
| "process_each H (u # us) =
     (case process H u of
        Inl p \<Rightarrow> Inl p
      | Inr es \<Rightarrow> (case process_each H us of Inl p \<Rightarrow> Inl p | Inr es' \<Rightarrow> Inr (es @ es')))"

text \<open>Case bodies that emit and do not panic.\<close>

definition plain_handlers :: handlers where
  "plain_handlers typ f =
     (if typ \<in> set cache_frames then Inr [EmitAndCall_of typ] else Inr [EmitInGoroutines_of typ])"

section \<open>socket.go: the read loop\<close>

text \<open>
  What \<open>socket.Connection.ReadMessage()\<close> returns: an error after a failure of the
  transport, an error after a close frame of the peer (the close handler installed by
  \<open>Connect\<close> has run inside the call), or a message with its type and payload.
\<close>

datatype read_outcome = ReadError | CloseFrame | Message int frame

definition TextMessage :: int where
  "TextMessage = 1"

text \<open>
  One turn of the loop as the listener goroutine meets it.  \<open>Close()\<close> is called by
  another goroutine and only ever sets \<open>socket.closed\<close>: \<open>Close_before\<close> tells
  whether that happened before the test at the head of the turn, \<open>Close_during\<close>
  whether it happened while \<open>ReadMessage\<close> was blocked.  \<open>pinger_receives\<close> tells
  whether the pinger goroutine takes the value that \<open>socket.close()\<close> sends on
  \<open>closeEvent\<close>, \<open>Handler_Open_fails\<close> whether the \<open>socket.Open()\<close> of the close
  handler returns an error, \<open>Open_fails\<close> whether the \<open>socket.Open()\<close> of the
  listener returns an error.
\<close>

record turn =
  Close_before :: bool
  Close_during :: bool
  ReadMessage :: read_outcome
  pinger_receives :: bool
  Handler_Open_fails :: bool
  Open_fails :: bool

text \<open>
  The close handler of \<open>Connect\<close>, with its effects and whether it returns.  It
  returns at once when the socket is closed.  Otherwise it calls \<open>socket.close()\<close>,
  which sets \<open>socket.closed\<close> and then sends on the unbuffered \<open>closeEvent\<close>: with
  no pinger to receive, the send blocks for ever.  It then calls \<open>socket.Open()\<close>.
  Nothing resets \<open>socket.closed\<close>, so the listener that this \<open>Open\<close> starts
  returns at its first test and no Ready event can arrive: \<open>Open\<close> returns only with
  an error, and the handler with it; otherwise the handler waits in \<open>Open\<close> for ever.
\<close>

definition CloseHandler :: "bool \<Rightarrow> turn \<Rightarrow> effect list \<times> bool" where
  "CloseHandler closed t =
     (if closed then ([], True)
      else if \<not> pinger_receives t then ([close_internals], False)
      else ([close_internals, Open], Handler_Open_fails t))"

text \<open>
  \<open>listener\<close>, with the trace up to the point where the goroutine returns or blocks
  for ever.  With no turn left it stays blocked in \<open>ReadMessage\<close>; after a close
  frame it goes on only when the close handler returns, and \<open>ReadMessage\<close> then
  returns an error.  The test of \<open>socket.closed\<close> stands at the head of the loop
  only; after an error of \<open>ReadMessage\<close> the loop emits, sleeps and calls \<open>Open\<close>,
  and emits once more when \<open>Open\<close> returns an error.
\<close>

fun listener :: "handlers \<Rightarrow> bool \<Rightarrow> turn list \<Rightarrow> panic + effect list" where
  "listener H closed [] = Inr []"
| "listener H closed (t # ts) =
     (if closed \<or> Close_before t then Inr []
      else
        (case ReadMessage t of
           ReadError \<Rightarrow>
             Inr ([Error_Emit, Sleep_3s, Open] @ (if Open_fails t then [Error_Emit] else []))
         | CloseFrame \<Rightarrow>
             (case CloseHandler (Close_during t) t of
                (es, returns) \<Rightarrow>
                  (if returns
                   then Inr (es @ [Error_Emit, Sleep_3s, Open]
                             @ (if Open_fails t then [Error_Emit] else []))
                   else Inr es))
         | Message m p \<Rightarrow>
             (if m \<noteq> TextMessage then listener H (Close_during t) ts
              else
                (case process H p of
                   Inl e \<Rightarrow> Inl e
                 | Inr es \<Rightarrow>
                     (case listener H (Close_during t) ts of
                        Inl e \<Rightarrow> Inl e
                      | Inr es' \<Rightarrow> Inr (es @ es'))))))"

section \<open>socket.go: the ChannelUpdate patch\<close>

text \<open>
  The wire records of the frame, and the fields of the cached channel that the closure
  assigns (the declaration of \<open>OptimizedChannel\<close> is not among the sources; the types
  of the permissions and of the icon are type variables, the type of the flags is the
  variable \<open>'fl\<close>, an unsigned machine word wherever a function uses it).  Fields of
  the wire records whose names the cached records use carry the suffix \<open>_p\<close>, and the
  fields \<open>Data\<close>, \<open>Clear\<close> and \<open>Flags\<close> carry the suffix \<open>_c\<close> here.
\<close>

record ('p, 'rp) PartialChannel =
  Name_p :: string
  Description_p :: "string option"
  Active :: "bool option"
  NSFW :: "bool option"
  DefaultPermissions_p :: "'p option"
  RolePermissions_p :: "'rp option"
  Owner_p :: ULID

record ('p, 'rp) ChannelUpdate =
  ChannelID :: ULID
  Data_c :: "('p, 'rp) PartialChannel option"
  Clear_c :: "string list"

record ('fl, 'p, 'rp, 'i) OptimizedChannel =
  Name :: string
  Description :: string
  Flags_c :: 'fl
  DefaultPermissions :: "'p option"
  RolePermissions :: 'rp
  Owner :: ULID
  Icon :: "'i option"

definition IsDescriptionCleared :: "('p, 'rp) ChannelUpdate \<Rightarrow> bool" where
  "IsDescriptionCleared cu = (''Description'' \<in> set (Clear_c cu))"

definition IsIconRemoved :: "('p, 'rp) ChannelUpdate \<Rightarrow> bool" where
  "IsIconRemoved cu = (''Icon'' \<in> set (Clear_c cu))"

definition IsDefaultPermissionsWereRemoved :: "('p, 'rp) ChannelUpdate \<Rightarrow> bool" where
  "IsDefaultPermissionsWereRemoved cu = (''DefaultPermissions'' \<in> set (Clear_c cu))"

text \<open>
  The closure that the ChannelUpdate case hands to \<open>PartiallyUpdate\<close>, statement by
  statement.  The constants \<open>OptimizedChannelFlagActive\<close> and
  \<open>OptimizedChannelFlagNSFW\<close> are declared outside the sources and are arguments.
  \<open>c.Flags |= K\<close> is \<open>OR\<close>; \<open>c.Flags &= ^K\<close> is \<open>AND NOT\<close>.
\<close>

definition ChannelUpdate_mutator ::
  "'a::len word \<Rightarrow> 'a word \<Rightarrow> ('p, 'rp) ChannelUpdate
     \<Rightarrow> ('a word, 'p, 'rp, 'i) OptimizedChannel
     \<Rightarrow> panic + ('a word, 'p, 'rp, 'i) OptimizedChannel" where
  "ChannelUpdate_mutator OptimizedChannelFlagActive OptimizedChannelFlagNSFW r c0 =
     (case Data_c r of
        None \<Rightarrow> Inl (Panic ''nil pointer dereference'')
      | Some d \<Rightarrow>
          (let c = (if length (Name_p d) \<noteq> 0 then c0\<lparr>Name := Name_p d\<rparr> else c0);
               c = (case Description_p d of None \<Rightarrow> c | Some s \<Rightarrow> c\<lparr>Description := s\<rparr>);
               c = (case Active d of
                      None \<Rightarrow> c
                    | Some b \<Rightarrow>
                        (if b then c\<lparr>Flags_c := Flags_c c OR OptimizedChannelFlagActive\<rparr>
                         else c\<lparr>Flags_c := Flags_c c AND NOT OptimizedChannelFlagActive\<rparr>));
               c = (case NSFW d of
                      None \<Rightarrow> c
                    | Some b \<Rightarrow>
                        (if b then c\<lparr>Flags_c := Flags_c c OR OptimizedChannelFlagNSFW\<rparr>
                         else c\<lparr>Flags_c := Flags_c c AND NOT OptimizedChannelFlagNSFW\<rparr>));
               c = (case DefaultPermissions_p d of
                      None \<Rightarrow> c
                    | Some p \<Rightarrow> c\<lparr>DefaultPermissions := Some p\<rparr>);
               c = (case RolePermissions_p d of None \<Rightarrow> c | Some rp \<Rightarrow> c\<lparr>RolePermissions := rp\<rparr>);
               c = (if length (Owner_p d) \<noteq> 0 then c\<lparr>Owner := Owner_p d\<rparr> else c);
               c = (if IsDescriptionCleared r then c\<lparr>Description := []\<rparr> else c);
               c = (if IsIconRemoved r then c\<lparr>Icon := None\<rparr> else c);
               c = (if IsDefaultPermissionsWereRemoved r then c\<lparr>DefaultPermissions := None\<rparr> else c)
           in Inr c))"

text \<open>
  The value of bit \<open>n\<close> after a boolean field of a patch is applied with the constant
  \<open>K\<close>: the field's value where \<open>K\<close> has the bit and the field is present, the old
  value elsewhere.
\<close>

definition patched_bit :: "bool option \<Rightarrow> 'a::len word \<Rightarrow> nat \<Rightarrow> bool \<Rightarrow> bool" where
  "patched_bit field K n old = (case field of None \<Rightarrow> old | Some b \<Rightarrow> (if bit K n then b else old))"

section \<open>socket.go: the UserUpdate patch\<close>

text \<open>
  The wire records of the frame and the fields of the cached user that the closure
  assigns; the declarations of the cached user, its status and its profile are not among
  the sources.  The field \<open>Content\<close> of the profile carries the suffix \<open>_up\<close>, the
  fields \<open>Data\<close> and \<open>Clear\<close> the suffix \<open>_u\<close>.
\<close>

record UserStatus =
  Text_p :: string
  Presence_p :: string

record 'f UserProfile =
  Background_p :: "'f option"

record ('b, 'uf, 'f, 'rel, 'rs) PartialUser =
  Badges :: "'b option"
  Flags_p :: "'uf option"
  Online :: "bool option"
  Username_p :: "string option"
  Status_p :: "UserStatus option"
  Profile_p :: "'f UserProfile option"
  Relations_p :: "'rel option"
  Relationship_p :: "'rs option"

record ('b, 'uf, 'f, 'rel, 'rs) UserUpdate =
  UserID :: ULID
  Data_u :: "('b, 'uf, 'f, 'rel, 'rs) PartialUser option"
  Clear_u :: "string list"
  EventID :: ULID

record 'op OptimizedUserStatus =
  Presence :: 'op
  Text :: string

record 'of OptimizedUserProfile =
  Content_up :: string
  Background :: "'of option"

record ('fl, 'op, 'of, 'rel, 'ors, 'av) OptimizedUser =
  Flags :: 'fl
  Username :: string
  Status :: "'op OptimizedUserStatus option"
  Profile :: "'of OptimizedUserProfile option"
  Relations :: 'rel
  Relationship :: 'ors
  Avatar :: "'av option"
  DisplayName :: string

text \<open>The test for the display name looks for \<open>Display\<close>, as the source does.\<close>

definition IsAvatarRemoved :: "('b, 'uf, 'f, 'rel, 'rs) UserUpdate \<Rightarrow> bool" where
  "IsAvatarRemoved uu = (''Avatar'' \<in> set (Clear_u uu))"

definition IsStatusTextRemoved :: "('b, 'uf, 'f, 'rel, 'rs) UserUpdate \<Rightarrow> bool" where
  "IsStatusTextRemoved uu = (''StatusText'' \<in> set (Clear_u uu))"

definition IsStatusPresenceRemoved :: "('b, 'uf, 'f, 'rel, 'rs) UserUpdate \<Rightarrow> bool" where
  "IsStatusPresenceRemoved uu = (''StatusPresence'' \<in> set (Clear_u uu))"

definition IsProfileContentRemoved :: "('b, 'uf, 'f, 'rel, 'rs) UserUpdate \<Rightarrow> bool" where
  "IsProfileContentRemoved uu = (''ProfileContent'' \<in> set (Clear_u uu))"

definition IsProfileBackgroundRemoved :: "('b, 'uf, 'f, 'rel, 'rs) UserUpdate \<Rightarrow> bool" where
  "IsProfileBackgroundRemoved uu = (''ProfileBackground'' \<in> set (Clear_u uu))"

definition IsDisplayNameRemoved :: "('b, 'uf, 'f, 'rel, 'rs) UserUpdate \<Rightarrow> bool" where
  "IsDisplayNameRemoved uu = (''Display'' \<in> set (Clear_u uu))"

text \<open>
  The conversions and constants of the cached types that the closure calls and that are
  declared outside the sources; they are arguments.  \<open>Presence_zero\<close> is the presence
  of \<open>&OptimizedUserStatus{}\<close>.
\<close>

record ('op, 'f, 'of, 'rs, 'ors) conversions =
  Presence_ToOptimized :: "string \<Rightarrow> 'op"
  Presence_zero :: 'op
  OptimizedPresenceInvisible :: 'op
  File_ToOptimized :: "'f \<Rightarrow> 'of"
  RelationshipStatus_ToOptimized :: "'rs \<Rightarrow> 'ors"

text \<open>
  Modelled from the spec: the layout of the bitfield \<open>OptimizedUserFlags\<close>, whose
  declaration is not among the sources.  The spec: the flags are a single unsigned
  integer with named bit constants.  The layout names the constant of the online bit
  (the one constant the closure itself uses), the bits that hold the badges, the bits
  that hold the user flags, and how a value of either kind is placed in the word.
\<close>

record ('fl, 'b, 'uf) user_flags_layout =
  OptimizedUserFlagsOnline :: 'fl
  BadgesMask :: 'fl
  FlagsMask :: 'fl
  badges_bits :: "'b \<Rightarrow> 'fl"
  flags_bits :: "'uf \<Rightarrow> 'fl"

text \<open>
  Modelled from the spec: the method \<open>updateBadges\<close> of \<open>OptimizedUserFlags\<close>, whose
  file is not among the sources.  The spec: a field of a patch is applied by setting or
  clearing the corresponding bits, never by replacing the whole bitfield, so that the
  other bits survive untouched (mask/set semantics, not full overwrite).
\<close>

definition updateBadges :: "('a::len word, 'b, 'uf) user_flags_layout \<Rightarrow> 'b \<Rightarrow> 'a word \<Rightarrow> 'a word" where
  "updateBadges L badges f = (f AND NOT (BadgesMask L)) OR (badges_bits L badges AND BadgesMask L)"

text \<open>
  Modelled from the spec: the method \<open>updateFlags\<close> of \<open>OptimizedUserFlags\<close>, whose
  file is not among the sources; the same words of the spec as for \<open>updateBadges\<close>.
\<close>

definition updateFlags :: "('a::len word, 'b, 'uf) user_flags_layout \<Rightarrow> 'uf \<Rightarrow> 'a word \<Rightarrow> 'a word" where
  "updateFlags L flags f = (f AND NOT (FlagsMask L)) OR (flags_bits L flags AND FlagsMask L)"

text \<open>
  The closure that the UserUpdate case hands to \<open>PartiallyUpdate\<close>, in the order of the
  source: the three statements on \<open>u.Flags\<close>, the user name, the status, the profile,
  the relations, and the fields of the clear list.
\<close>

definition patch_user_flags ::
  "('a::len word, 'b, 'uf) user_flags_layout \<Rightarrow> ('b, 'uf, 'f, 'rel, 'rs) PartialUser
     \<Rightarrow> ('a word, 'op, 'of, 'rel, 'ors, 'av) OptimizedUser
     \<Rightarrow> ('a word, 'op, 'of, 'rel, 'ors, 'av) OptimizedUser" where
  "patch_user_flags L d u0 =
     (let u = (case Badges d of None \<Rightarrow> u0
               | Some badges \<Rightarrow> u0\<lparr>Flags := updateBadges L badges (Flags u0)\<rparr>);
          u = (case Flags_p d of None \<Rightarrow> u
               | Some flags \<Rightarrow> u\<lparr>Flags := updateFlags L flags (Flags u)\<rparr>)
      in case Online d of
           None \<Rightarrow> u
         | Some b \<Rightarrow>
             (if b then u\<lparr>Flags := Flags u OR OptimizedUserFlagsOnline L\<rparr>
              else u\<lparr>Flags := Flags u AND NOT (OptimizedUserFlagsOnline L)\<rparr>))"

definition patch_user_status ::
  "('op, 'f, 'of, 'rs, 'ors) conversions \<Rightarrow> ('b, 'uf, 'f, 'rel, 'rs) PartialUser
     \<Rightarrow> ('fl, 'op, 'of, 'rel, 'ors, 'av) OptimizedUser
     \<Rightarrow> ('fl, 'op, 'of, 'rel, 'ors, 'av) OptimizedUser" where
  "patch_user_status D d u =
     (case Status_p d of
        None \<Rightarrow> u
      | Some st \<Rightarrow>
          (let s = (case Status u of
                      None \<Rightarrow> \<lparr>Presence = Presence_zero D, Text = []\<rparr>
                    | Some s \<Rightarrow> s);
               s = (if length (Presence_p st) \<noteq> 0
                    then s\<lparr>Presence := Presence_ToOptimized D (Presence_p st)\<rparr>
                    else s);
               s = (if length (Text_p st) \<noteq> 0 then s\<lparr>Text := Text_p st\<rparr> else s)
           in u\<lparr>Status := Some s\<rparr>))"

definition patch_user_profile ::
  "('op, 'f, 'of, 'rs, 'ors) conversions \<Rightarrow> ('b, 'uf, 'f, 'rel, 'rs) PartialUser
     \<Rightarrow> ('fl, 'op, 'of, 'rel, 'ors, 'av) OptimizedUser
     \<Rightarrow> ('fl, 'op, 'of, 'rel, 'ors, 'av) OptimizedUser" where
  "patch_user_profile D d u =
     (case Profile_p d of
        None \<Rightarrow> u
      | Some pr \<Rightarrow>
          (let p = (case Profile u of
                      None \<Rightarrow> \<lparr>Content_up = [], Background = None\<rparr>
                    | Some p \<Rightarrow> p);
               p = (case Background_p pr of
                      None \<Rightarrow> p
                    | Some bg \<Rightarrow> p\<lparr>Background := Some (File_ToOptimized D bg)\<rparr>)
           in u\<lparr>Profile := Some p\<rparr>))"

definition patch_user_relations ::
  "('op, 'f, 'of, 'rs, 'ors) conversions \<Rightarrow> ('b, 'uf, 'f, 'rel, 'rs) PartialUser
     \<Rightarrow> ('fl, 'op, 'of, 'rel, 'ors, 'av) OptimizedUser
     \<Rightarrow> ('fl, 'op, 'of, 'rel, 'ors, 'av) OptimizedUser" where
  "patch_user_relations D d u0 =
     (let u = (case Relations_p d of None \<Rightarrow> u0 | Some rs \<Rightarrow> u0\<lparr>Relations := rs\<rparr>)
      in case Relationship_p d of
           None \<Rightarrow> u
         | Some rs \<Rightarrow> u\<lparr>Relationship := RelationshipStatus_ToOptimized D rs\<rparr>)"

definition clear_user_status ::
  "('op, 'f, 'of, 'rs, 'ors) conversions \<Rightarrow> ('b, 'uf, 'f, 'rel, 'rs) UserUpdate
     \<Rightarrow> ('fl, 'op, 'of, 'rel, 'ors, 'av) OptimizedUser
     \<Rightarrow> ('fl, 'op, 'of, 'rel, 'ors, 'av) OptimizedUser" where
  "clear_user_status D r u0 =
     (let u = (if IsStatusTextRemoved r
               then u0\<lparr>Status := map_option (\<lambda>s. s\<lparr>Text := []\<rparr>) (Status u0)\<rparr> else u0)
      in if IsStatusPresenceRemoved r
         then u\<lparr>Status := map_option (\<lambda>s. s\<lparr>Presence := OptimizedPresenceInvisible D\<rparr>) (Status u)\<rparr>
         else u)"

definition clear_user_profile ::
  "('b, 'uf, 'f, 'rel, 'rs) UserUpdate
     \<Rightarrow> ('fl, 'op, 'of, 'rel, 'ors, 'av) OptimizedUser
     \<Rightarrow> ('fl, 'op, 'of, 'rel, 'ors, 'av) OptimizedUser" where
  "clear_user_profile r u0 =
     (let u = (if IsProfileContentRemoved r
               then u0\<lparr>Profile := map_option (\<lambda>p. p\<lparr>Content_up := []\<rparr>) (Profile u0)\<rparr> else u0)
      in if IsProfileBackgroundRemoved r
         then u\<lparr>Profile := map_option (\<lambda>p. p\<lparr>Background := None\<rparr>) (Profile u)\<rparr>
         else u)"

definition UserUpdate_mutator ::
  "('op, 'f, 'of, 'rs, 'ors) conversions \<Rightarrow> ('a::len word, 'b, 'uf) user_flags_layout
     \<Rightarrow> ('b, 'uf, 'f, 'rel, 'rs) UserUpdate
     \<Rightarrow> ('a word, 'op, 'of, 'rel, 'ors, 'av) OptimizedUser
     \<Rightarrow> panic + ('a word, 'op, 'of, 'rel, 'ors, 'av) OptimizedUser" where
  "UserUpdate_mutator D L r u0 =
     (case Data_u r of
        None \<Rightarrow> Inl (Panic ''nil pointer dereference'')
      | Some d \<Rightarrow>
          (let u = patch_user_flags L d u0;
               u = (case Username_p d of None \<Rightarrow> u | Some n \<Rightarrow> u\<lparr>Username := n\<rparr>);
               u = patch_user_status D d u;
               u = patch_user_profile D d u;
               u = patch_user_relations D d u;
               u = (if IsAvatarRemoved r then u\<lparr>Avatar := None\<rparr> else u);
               u = clear_user_status D r u;
               u = clear_user_profile r u;
               u = (if IsDisplayNameRemoved r then u\<lparr>DisplayName := []\<rparr> else u)
           in Inr u))"

text \<open>The flags after the three statements on \<open>u.Flags\<close>, as a function of the flags before.\<close>

definition user_flags_after ::
  "('a::len word, 'b, 'uf) user_flags_layout \<Rightarrow> ('b, 'uf, 'f, 'rel, 'rs) PartialUser \<Rightarrow> 'a word \<Rightarrow> 'a word" where
  "user_flags_after L d f =
     (let f1 = (case Badges d of None \<Rightarrow> f | Some badges \<Rightarrow> updateBadges L badges f);
          f2 = (case Flags_p d of None \<Rightarrow> f1 | Some flags \<Rightarrow> updateFlags L flags f1)
      in case Online d of
           None \<Rightarrow> f2
         | Some b \<Rightarrow> (if b then f2 OR OptimizedUserFlagsOnline L
                      else f2 AND NOT (OptimizedUserFlagsOnline L)))"

text \<open>The bits that a patch may write: those of the field of each value that it carries.\<close>

definition touched ::
  "('a::len word, 'b, 'uf) user_flags_layout \<Rightarrow> ('b, 'uf, 'f, 'rel, 'rs) PartialUser \<Rightarrow> nat \<Rightarrow> bool" where
  "touched L d n =
     ((Badges d \<noteq> None \<and> bit (BadgesMask L) n)
      \<or> (Flags_p d \<noteq> None \<and> bit (FlagsMask L) n)
      \<or> (Online d \<noteq> None \<and> bit (OptimizedUserFlagsOnline L) n))"

section \<open>Example caches\<close>

text \<open>Small configured caches of entities that are pairs of a key and a content.\<close>

definition small_cache :: "(ULID \<times> string) Cache1" where
  "small_cache = \<lparr>Checker = None, DontInsertIfOverflow = False, MaxSize = 2, Cache = []\<rparr>"

definition unlimited2 :: "(ULID \<times> string) Cache2" where
  "unlimited2 = \<lparr>Checker2 = None, MaxSize1 = 0, MaxSize2 = 0, TotalMaxSize = - 1, total = 0,
                 DontInsertIfOverflow2 = False, Cache2 = []\<rparr>"

definition no_picks :: picks where
  "no_picks = \<lparr>inner = (\<lambda>_. 0), member = 0, group = 0\<rparr>"

definition capped2 :: "(ULID \<times> string) Cache2" where
  "capped2 = \<lparr>Checker2 = None, MaxSize1 = 0, MaxSize2 = 0, TotalMaxSize = 1, total = 0,
              DontInsertIfOverflow2 = False, Cache2 = []\<rparr>"

section \<open>Example controllers\<close>

text \<open>
  Three subscribers A, B and C that record their names; B deletes its own subscription.
\<close>

definition logs_name :: "string \<Rightarrow> int list \<Rightarrow> (unit, string list) func" where
  "logs_name name subs = Func (\<lambda>t e. Inr (e @ [name])) subs"

definition abc_world :: "(unit, string list) world" where
  "abc_world = \<lparr>ec = \<lparr>ls = [(1, logs_name ''A'' []), (2, logs_name ''B'' [2]), (3, logs_name ''C'' [])], id_ec = 3\<rparr>,
                 env = []\<rparr>"

text \<open>
  A cache holding the message \<open>m1\<close> of channel \<open>c1\<close> with content \<open>hi\<close>, one
  subscriber that reads the cache, and the frame that changes the content to \<open>bye\<close>.
\<close>

definition hi_message :: "nat OptimizedMessage" where
  "hi_message = \<lparr>ID = ''m1'', Content = ''hi'', Embeds = []\<rparr>"

definition message_cache :: "nat OptimizedMessage Cache2" where
  "message_cache = \<lparr>Checker2 = None, MaxSize1 = 0, MaxSize2 = 0, TotalMaxSize = - 1, total = 1,
                     DontInsertIfOverflow2 = False, Cache2 = [(''c1'', [(''m1'', hi_message)])]\<rparr>"

definition one_reader :: "(nat MessageUpdate, (nat, string option list) client) world" where
  "one_reader = \<lparr>ec = \<lparr>ls = [(1, reads_message)], id_ec = 1\<rparr>,
                  env = \<lparr>Messages = message_cache, user = []\<rparr>\<rparr>"

definition bye_update :: "nat MessageUpdate" where
  "bye_update = \<lparr>MessageID = ''m1'', Channel = ''c1'',
                  Data = Some \<lparr>Content_p = Some ''bye'', Embeds_p = None\<rparr>\<rparr>"

section \<open>Example frames\<close>

text \<open>
  Bytes that are not JSON; the object \<open>{"id":"01H"}\<close>; the object \<open>{"type":1}\<close>; the
  value \<open>null\<close>; the array \<open>[1,2]\<close>; a well-formed Pong frame; a Pong frame whose
  \<open>data\<close> is a string, which the typed decoder refuses; and the turn of the loop
  that reads a text message.
\<close>

definition not_json :: frame where
  "not_json = Frame None False []"

definition no_type :: frame where
  "no_type = Frame (Some (JObject [(''id'', JString ''01H'')])) False []"




definition pong :: frame where
  "pong = Frame (Some (JObject [(''type'', JString ''Pong''), (''data'', JNumber ''0'')])) True []"

definition bad_pong :: frame where
  "bad_pong =
     Frame (Some (JObject [(''type'', JString ''Pong''), (''data'', JString ''x'')])) False []"

definition text_turn :: "frame \<Rightarrow> turn" where
  "text_turn f = \<lparr>Close_before = False, Close_during = False, ReadMessage = Message TextMessage f,
                  pinger_receives = True, Handler_Open_fails = False, Open_fails = False\<rparr>"


section \<open>Example patches\<close>

text \<open>
  A layout of eight bits: the online bit is bit 0, the badges are bits 1 to 3, the user
  flags are bits 4 and 5.  A cached user that is online with user flags 2, and a patch
  that carries only the badges 5.  A cached channel with flags 2 (with the active bit 1
  and the NSFW bit 2: not active, NSFW), and a patch that sets active.
\<close>

definition byte_layout :: "(8 word, 8 word, 8 word) user_flags_layout" where
  "byte_layout = \<lparr>OptimizedUserFlagsOnline = 1, BadgesMask = 14, FlagsMask = 48,
                   badges_bits = (\<lambda>y. push_bit 1 y), flags_bits = (\<lambda>y. push_bit 4 y)\<rparr>"

definition plain_conversions :: "(string, string, string, string, string) conversions" where
  "plain_conversions = \<lparr>Presence_ToOptimized = (\<lambda>s. s), Presence_zero = [],
                         OptimizedPresenceInvisible = ''Invisible'', File_ToOptimized = (\<lambda>s. s),
                         RelationshipStatus_ToOptimized = (\<lambda>s. s)\<rparr>"

definition online_user :: "(8 word, string, string, string, string, string) OptimizedUser" where
  "online_user = \<lparr>Flags = 33, Username = ''u'', Status = None, Profile = None, Relations = [],
                   Relationship = [], Avatar = None, DisplayName = []\<rparr>"

definition badges_data :: "(8 word, 8 word, string, string, string) PartialUser" where
  "badges_data = \<lparr>Badges = Some 5, Flags_p = None, Online = None, Username_p = None,
                   Status_p = None, Profile_p = None, Relations_p = None, Relationship_p = None\<rparr>"

definition badges_patch :: "(8 word, 8 word, string, string, string) UserUpdate" where
  "badges_patch = \<lparr>UserID = ''u1'', Data_u = Some badges_data, Clear_u = [], EventID = ''e1''\<rparr>"

definition quiet_channel :: "(8 word, string, string, string) OptimizedChannel" where
  "quiet_channel = \<lparr>Name = ''general'', Description = [], Flags_c = 2, DefaultPermissions = None,
                     RolePermissions = [], Owner = [], Icon = None\<rparr>"

definition active_data :: "(string, string) PartialChannel" where
  "active_data = \<lparr>Name_p = [], Description_p = None, Active = Some True, NSFW = None,
                   DefaultPermissions_p = None, RolePermissions_p = None, Owner_p = []\<rparr>"

definition active_patch :: "(string, string) ChannelUpdate" where
  "active_patch = \<lparr>ChannelID = ''c1'', Data_c = Some active_data, Clear_c = []\<rparr>"

section \<open>Facts about Go maps\<close>

lemma range_first_in_keys:
  "range_first pick m = Some k \<Longrightarrow> k \<in> fst ` set m"
  by (auto simp: range_first_def split: if_splits)

lemma range_first_nonempty:
  "m \<noteq> [] \<Longrightarrow> \<exists>k. range_first pick m = Some k"
  by (simp add: range_first_def)

lemma length_delete_present:
  "distinct (map fst m) \<Longrightarrow> k \<in> fst ` set m \<Longrightarrow> Suc (length (AList.delete k m)) = length m"
proof (induction m)
  case Nil
  then show ?case by simp
next
  case (Cons a m)
  show ?case
  proof (cases "fst a = k")
    case True
    with Cons.prems have "k \<notin> fst ` set m" by auto
    then have "AList.delete k m = m" by simp
    with True show ?thesis by (cases a) simp
  next
    case False
    with Cons have "Suc (length (AList.delete k m)) = length m" by auto
    with False show ?thesis by (cases a) simp
  qed
qed

lemma length_update_le: "length (AList.update k v m) \<le> Suc (length m)"
  by (induction m) auto

section \<open>Facts about the single-keyed cache\<close>

lemma length_evict_update:
  assumes "distinct (map fst m)" "range_first pick m = Some k"
  shows "length (AList.update j v (AList.delete k m)) \<le> length m"
proof -
  from assms(2) have "k \<in> fst ` set m" by (rule range_first_in_keys)
  with assms(1) have "Suc (length (AList.delete k m)) = length m"
    by (rule length_delete_present)
  moreover have "length (AList.update j v (AList.delete k m)) \<le> Suc (length (AList.delete k m))"
    by (rule length_update_le)
  ultimately show ?thesis by simp
qed

lemma resize_config:
  "resize GetKey pick c e = (b, c') \<Longrightarrow>
     MaxSize c' = MaxSize c \<and> Checker c' = Checker c \<and> DontInsertIfOverflow c' = DontInsertIfOverflow c"
  by (auto simp: resize_def Let_def split: if_splits)

lemma Set1_config:
  "MaxSize (Set1 GetKey pick c v) = MaxSize c \<and> Checker (Set1 GetKey pick c v) = Checker c
   \<and> DontInsertIfOverflow (Set1 GetKey pick c v) = DontInsertIfOverflow c"
proof (cases "resize GetKey pick c v")
  case (Pair b c')
  from resize_config [OF Pair] show ?thesis
    by (cases b) (simp_all add: Set1_def Pair)
qed

lemma Set1_distinct:
  assumes "distinct (map fst (Cache c))"
  shows "distinct (map fst (Cache (Set1 GetKey pick c v)))"
  using assms
  by (auto simp: Set1_def resize_def Let_def distinct_update distinct_delete
           split: if_splits option.splits)

lemma Set1_size_step:
  assumes "distinct (map fst (Cache c))" "0 < MaxSize c" "int (length (Cache c)) \<le> MaxSize c"
  shows "int (length (Cache (Set1 GetKey pick c v))) \<le> MaxSize c"
proof (cases "int (length (Cache c)) \<ge> MaxSize c")
  case True
  with assms(2) have ne: "Cache c \<noteq> []" by auto
  then obtain k where k: "range_first pick (Cache c) = Some k"
    using range_first_nonempty by blast
  have "length (AList.update (GetKey v) v (AList.delete k (Cache c))) \<le> length (Cache c)"
    using assms(1) k by (rule length_evict_update)
  with assms True k show ?thesis
    by (auto simp: Set1_def resize_def Let_def)
next
  case False
  have "length (AList.update (GetKey v) v (Cache c)) \<le> Suc (length (Cache c))"
    by (rule length_update_le)
  with assms False show ?thesis
    by (auto simp: Set1_def resize_def Let_def)
qed

lemma Set1_all_bound:
  assumes "distinct (map fst (Cache c))" "0 < MaxSize c" "int (length (Cache c)) \<le> MaxSize c"
  shows "Size (Set1_all GetKey c ops) \<le> MaxSize c"
  using assms
proof (induction ops arbitrary: c)
  case Nil
  then show ?case by (simp add: Size_def)
next
  case (Cons a ops)
  obtain pick v where a: "a = (pick, v)" by (cases a)
  let ?c = "Set1 GetKey pick c v"
  have "distinct (map fst (Cache ?c))" using Cons.prems(1) by (rule Set1_distinct)
  moreover have "MaxSize ?c = MaxSize c" by (simp add: Set1_config)
  moreover have "int (length (Cache ?c)) \<le> MaxSize c"
    using Cons.prems by (rule Set1_size_step)
  ultimately have "Size (Set1_all GetKey ?c ops) \<le> MaxSize ?c"
    using Cons.prems(2) by (intro Cons.IH) simp_all
  then show ?case by (simp add: a Set1_config)
qed

lemma Set1_all_config:
  "MaxSize (Set1_all GetKey c ops) = MaxSize c \<and> Checker (Set1_all GetKey c ops) = Checker c"
  by (induction ops arbitrary: c) (auto simp: Set1_config)

lemma Set1_all_distinct:
  "distinct (map fst (Cache c)) \<Longrightarrow> distinct (map fst (Cache (Set1_all GetKey c ops)))"
  by (induction ops arbitrary: c) (auto simp: Set1_distinct)

lemma Set1_reject:
  assumes "0 < MaxSize c" "Checker c = None" "MaxSize c \<le> Size c" "DontInsertIfOverflow c"
  shows "Set1 GetKey pick c v = c"
  using assms by (simp add: Set1_def resize_def Size_def)

lemma Set1_evict:
  assumes "0 < MaxSize c" "Checker c = None" "MaxSize c \<le> Size c" "\<not> DontInsertIfOverflow c"
  shows "\<exists>k. Get c k \<noteq> None
           \<and> Cache (Set1 GetKey pick c v) = AList.update (GetKey v) v (AList.delete k (Cache c))"
proof -
  from assms(1,3) have "Cache c \<noteq> []" by (auto simp: Size_def)
  then obtain k where k: "range_first pick (Cache c) = Some k"
    using range_first_nonempty by blast
  then have "k \<in> fst ` set (Cache c)" by (rule range_first_in_keys)
  then have "Get c k \<noteq> None" by (simp add: Get_def map_of_eq_None_iff)
  moreover have "Cache (Set1 GetKey pick c v) = AList.update (GetKey v) v (AList.delete k (Cache c))"
    using assms k by (simp add: Set1_def resize_def Size_def)
  ultimately show ?thesis by blast
qed

section \<open>Facts about the parent-scoped cache\<close>

lemma length_update_absent:
  "map_of m k = None \<Longrightarrow> length (AList.update k v m) = Suc (length m)"
  by (induction m) (auto split: if_splits)

lemma length_update_present:
  "map_of m k = Some x \<Longrightarrow> length (AList.update k v m) = length m"
  by (induction m) (auto split: if_splits)

lemma map_of_Some_in_keys: "map_of m k = Some x \<Longrightarrow> k \<in> fst ` set m"
  by (metis domI dom_map_of_conv_image_fst)

lemma count2_update_present:
  "map_of G p = Some g \<Longrightarrow>
     int (count2 (AList.update p g' G)) = int (count2 G) - int (length g) + int (length g')"
  by (induction G) (auto simp: count2_def split: if_splits)

lemma count2_update_absent:
  "map_of G p = None \<Longrightarrow> count2 (AList.update p g' G) = count2 G + length g'"
  by (induction G) (auto simp: count2_def split: if_splits)

lemma count2_delete:
  "distinct (map fst G) \<Longrightarrow> map_of G p = Some g \<Longrightarrow>
     int (count2 (AList.delete p G)) = int (count2 G) - int (length g)"
proof (induction G)
  case Nil
  then show ?case by simp
next
  case (Cons a G)
  show ?case
  proof (cases "fst a = p")
    case True
    with Cons.prems have "p \<notin> fst ` set G" by auto
    then have "AList.delete p G = G" by simp
    with True Cons.prems show ?thesis by (cases a) (simp add: count2_def)
  next
    case False
    with Cons show ?thesis by (cases a) (auto simp: count2_def)
  qed
qed

lemma list_all_update:
  "list_all P G \<Longrightarrow> P (p, g) \<Longrightarrow> list_all P (AList.update p g G)"
  by (induction G) auto

lemma list_all_delete: "list_all P G \<Longrightarrow> list_all P (AList.delete p G)"
  by (induction G) auto

lemma list_all_map_of:
  "list_all P G \<Longrightarrow> map_of G p = Some g \<Longrightarrow> P (p, g)"
  by (metis list_all_iff map_of_SomeD)

lemma wf2_group_distinct:
  assumes "wf2 c" "map_of (Cache2 c) p = Some g"
  shows "distinct (map fst g)"
proof -
  from assms(2) have "(p, g) \<in> set (Cache2 c)" by (rule map_of_SomeD)
  moreover from assms(1) have "\<forall>pg \<in> set (Cache2 c). distinct (map fst (snd pg))"
    by (simp add: wf2_def list_all_iff)
  ultimately show ?thesis by fastforce
qed

lemma wf2_del: assumes "wf2 c" shows "wf2 (del c parent ident)"
proof (cases "map_of (Cache2 c) parent")
  case None
  with assms show ?thesis by (simp add: del_def)
next
  case (Some p)
  show ?thesis
  proof (cases "map_of p ident")
    case None
    with Some assms show ?thesis by (simp add: del_def)
  next
    case (Some x)
    from assms \<open>map_of (Cache2 c) parent = Some p\<close>
    have dp: "distinct (map fst p)" by (rule wf2_group_distinct)
    have "ident \<in> fst ` set p" using Some by (rule map_of_Some_in_keys)
    with dp have len: "Suc (length (AList.delete ident p)) = length p"
      by (rule length_delete_present)
    have cnt: "int (count2 (AList.update parent (AList.delete ident p) (Cache2 c)))
               = int (count2 (Cache2 c)) - int (length p) + int (length (AList.delete ident p))"
      using \<open>map_of (Cache2 c) parent = Some p\<close> by (rule count2_update_present)
    have d2: "distinct (map fst (AList.delete ident p))" using dp by (rule distinct_delete)
    from assms have "list_all (\<lambda>pg. distinct (map fst (snd pg)))
        (AList.update parent (AList.delete ident p) (Cache2 c))"
      using d2 by (intro list_all_update) (simp_all add: wf2_def)
    with assms cnt len Some \<open>map_of (Cache2 c) parent = Some p\<close> show ?thesis
      by (simp add: del_def wf2_def distinct_update)
  qed
qed

lemma wf2_ins: assumes "wf2 c" shows "wf2 (ins GetKey c parent e)"
proof (cases "map_of (Cache2 c) parent")
  case None
  have "list_all (\<lambda>pg. distinct (map fst (snd pg))) (AList.update parent [(GetKey e, e)] (Cache2 c))"
    using assms by (intro list_all_update) (simp_all add: wf2_def)
  with assms None count2_update_absent [OF None, of "[(GetKey e, e)]"] show ?thesis
    by (simp add: ins_def wf2_def distinct_update)
next
  case (Some m)
  from assms Some have dm: "distinct (map fst m)" by (rule wf2_group_distinct)
  let ?m = "AList.update (GetKey e) e m"
  have d2: "distinct (map fst ?m)" using dm by (rule distinct_update)
  have la: "list_all (\<lambda>pg. distinct (map fst (snd pg))) (AList.update parent ?m (Cache2 c))"
    using assms d2 by (intro list_all_update) (simp_all add: wf2_def)
  have cnt: "int (count2 (AList.update parent ?m (Cache2 c)))
             = int (count2 (Cache2 c)) - int (length m) + int (length ?m)"
    using Some by (rule count2_update_present)
  show ?thesis
  proof (cases "map_of m (GetKey e)")
    case None
    then have "length ?m = Suc (length m)" by (rule length_update_absent)
    with assms Some None la cnt show ?thesis
      by (simp add: ins_def wf2_def distinct_update Let_def)
  next
    case (Some x)
    then have "length ?m = length m" by (rule length_update_present)
    with assms \<open>map_of (Cache2 c) parent = Some m\<close> Some la cnt show ?thesis
      by (simp add: ins_def wf2_def distinct_update Let_def)
  qed
qed

lemma wf2_drop_group:
  assumes "wf2 c" "map_of (Cache2 c) k = Some m"
  shows "wf2 (c\<lparr>total := total c - int (length m), Cache2 := AList.delete k (Cache2 c)\<rparr>)"
  using assms count2_delete [of "Cache2 c" k m]
  by (simp add: wf2_def distinct_delete list_all_delete)

lemma wf2_DelGroup: "wf2 c \<Longrightarrow> wf2 (DelGroup c parent)"
  by (cases "map_of (Cache2 c) parent") (simp_all add: DelGroup_def wf2_drop_group)

lemma wf2_evict_in_group: "wf2 c \<Longrightarrow> wf2 (evict_in_group pk c k1)"
  by (auto simp: evict_in_group_def wf2_del split: option.splits)

lemma wf2_foldl_evict: "wf2 c \<Longrightarrow> wf2 (foldl (evict_in_group pk) c ks)"
  by (induction ks arbitrary: c) (simp_all add: wf2_evict_in_group)

lemma wf2_evict_each_group: "wf2 c \<Longrightarrow> wf2 (evict_each_group pk c)"
  by (simp add: evict_each_group_def wf2_foldl_evict)

lemma wf2_evict_member_or_group:
  assumes "wf2 c" shows "wf2 (evict_member_or_group pk c parent)"
proof (cases "map_of (Cache2 c) parent")
  case (Some ms)
  with assms show ?thesis
    by (auto simp: evict_member_or_group_def wf2_del split: option.splits)
next
  case None
  show ?thesis
  proof (cases "range_first (group pk) (Cache2 c)")
    case None
    with assms \<open>map_of (Cache2 c) parent = None\<close> show ?thesis
      by (simp add: evict_member_or_group_def)
  next
    case (Some k)
    then have "k \<in> fst ` set (Cache2 c)" by (rule range_first_in_keys)
    then obtain m where m: "map_of (Cache2 c) k = Some m"
      by (metis domD dom_map_of_conv_image_fst)
    with assms Some \<open>map_of (Cache2 c) parent = None\<close> show ?thesis
      by (simp add: evict_member_or_group_def wf2_drop_group)
  qed
qed

lemma wf2_resize2:
  "wf2 c \<Longrightarrow> resize2 GetKey pk c parent e = (b, c') \<Longrightarrow> wf2 c'"
  by (auto simp: resize2_def wf2_evict_member_or_group wf2_evict_each_group split: if_splits)

lemma wf2_Set2: assumes "wf2 c" shows "wf2 (Set2 GetKey pk c parent v)"
proof (cases "resize2 GetKey pk c parent v")
  case (Pair b c')
  with assms have "wf2 c'" by (rule wf2_resize2)
  with Pair show ?thesis by (cases b) (simp_all add: Set2_def wf2_ins)
qed

lemma wf2_PartiallyUpdate2:
  assumes "wf2 c" "PartiallyUpdate2 c parent ident updater w = Inr (c', w')"
  shows "wf2 c'"
proof (cases "map_of (Cache2 c) parent")
  case None
  with assms show ?thesis by (simp add: PartiallyUpdate2_def)
next
  case (Some x)
  show ?thesis
  proof (cases "map_of x ident")
    case None
    with Some assms show ?thesis by (simp add: PartiallyUpdate2_def)
  next
    case (Some y)
    note x = \<open>map_of (Cache2 c) parent = Some x\<close>
    from assms(2) x Some obtain y' where
      c': "c' = c\<lparr>Cache2 := AList.update parent (AList.update ident y' x) (Cache2 c)\<rparr>"
      by (auto simp: PartiallyUpdate2_def split: sum.splits)
    from assms(1) x have dx: "distinct (map fst x)" by (rule wf2_group_distinct)
    let ?x = "AList.update ident y' x"
    have "length ?x = length x" using Some by (rule length_update_present)
    moreover have "int (count2 (AList.update parent ?x (Cache2 c)))
             = int (count2 (Cache2 c)) - int (length x) + int (length ?x)"
      using x by (rule count2_update_present)
    moreover have "list_all (\<lambda>pg. distinct (map fst (snd pg))) (AList.update parent ?x (Cache2 c))"
      using assms(1) dx by (intro list_all_update) (simp_all add: wf2_def distinct_update)
    ultimately show ?thesis using assms(1) by (simp add: c' wf2_def distinct_update)
  qed
qed

lemma reachable2_wf2: "reachable2 GetKey c \<Longrightarrow> wf2 c"
proof (induction rule: reachable2.induct)
  case (r_init c)
  then show ?case by (simp add: wf2_def count2_def)
next
  case (r_Set c pk parent v)
  then show ?case by (simp add: wf2_Set2)
next
  case (r_Del c parent ident)
  then show ?case by (simp add: Del2_def wf2_del)
next
  case (r_DelGroup c parent)
  then show ?case by (simp add: wf2_DelGroup)
next
  case (r_PartiallyUpdate c parent ident updater w c' w')
  from r_PartiallyUpdate.IH r_PartiallyUpdate.hyps(2) show ?case
    by (rule wf2_PartiallyUpdate2)
qed

lemma card_keys: "distinct (map fst g) \<Longrightarrow> card (dom (map_of g)) = length g"
  by (metis dom_map_of_conv_image_fst distinct_card length_map list.set_map)

lemma members2_dom:
  "map_of (Cache2 c) parent = Some g \<Longrightarrow> members2 c parent = dom (map_of g)"
  by (auto simp: members2_def Get2_def)

lemma card_members2:
  assumes "wf2 c" "map_of (Cache2 c) parent = Some g"
  shows "card (members2 c parent) = length g"
proof -
  from assms have "distinct (map fst g)" by (rule wf2_group_distinct)
  then show ?thesis by (simp add: members2_dom [OF assms(2)] card_keys)
qed

lemma found_in_Cons:
  assumes "p \<notin> fst ` set G"
  shows "found_in ((p, g) # G) = ({p} \<times> dom (map_of g)) \<union> found_in G"
proof -
  have "map_of G p = None" using assms by (simp add: map_of_eq_None_iff)
  then show ?thesis by (auto simp: found_in_def split: if_splits)
qed

lemma found_in_keys: "(p, i) \<in> found_in G \<Longrightarrow> p \<in> fst ` set G"
  by (auto simp: found_in_def dest: map_of_SomeD intro: rev_image_eqI)

lemma finite_found_in: "finite (found_in G)"
proof -
  have "found_in G \<subseteq> (\<Union>(p, g) \<in> set G. {p} \<times> dom (map_of g))"
    by (auto simp: found_in_def dest: map_of_SomeD)
  moreover have "finite (\<Union>(p, g) \<in> set G. {p} \<times> dom (map_of g))"
    by (auto simp: finite_dom_map_of)
  ultimately show ?thesis by (rule finite_subset)
qed

lemma card_found_in:
  "distinct (map fst G) \<Longrightarrow> list_all (\<lambda>pg. distinct (map fst (snd pg))) G \<Longrightarrow>
     card (found_in G) = count2 G"
proof (induction G)
  case Nil
  then show ?case by (simp add: found_in_def count2_def)
next
  case (Cons a G)
  obtain p g where a: "a = (p, g)" by (cases a)
  from Cons.prems a have notin: "p \<notin> fst ` set G" and dg: "distinct (map fst g)" by auto
  have disj: "({p} \<times> dom (map_of g)) \<inter> found_in G = {}"
    using notin found_in_keys by fastforce
  have "card (found_in (a # G)) = card ({p} \<times> dom (map_of g)) + card (found_in G)"
    unfolding a found_in_Cons [OF notin]
    by (rule card_Un_disjoint) (simp_all add: finite_dom_map_of finite_found_in disj)
  also have "card ({p} \<times> dom (map_of g)) = length g"
    using dg by (simp add: card_cartesian_product card_keys)
  also have "card (found_in G) = count2 G" using Cons by simp
  finally show ?case by (simp add: a count2_def)
qed

lemma entries2_found_in: "entries2 c = found_in (Cache2 c)"
  by (auto simp: entries2_def found_in_def Get2_def split: option.splits)

lemma wf2_Size2: "wf2 c \<Longrightarrow> Size2 c = int (card (entries2 c))"
  by (simp add: entries2_found_in card_found_in Size2_def wf2_def)

lemma GroupsCount_DelGroup:
  assumes "wf2 c" "map_of (Cache2 c) parent = Some g"
  shows "GroupsCount (DelGroup c parent) = GroupsCount c - 1"
proof -
  from assms(2) have "parent \<in> fst ` set (Cache2 c)" by (rule map_of_Some_in_keys)
  moreover from assms(1) have "distinct (map fst (Cache2 c))" by (simp add: wf2_def)
  ultimately have "Suc (length (AList.delete parent (Cache2 c))) = length (Cache2 c)"
    by (intro length_delete_present)
  then show ?thesis using assms(2) by (simp add: GroupsCount_def DelGroup_def)
qed

lemma Size2_DelGroup:
  assumes "wf2 c" "map_of (Cache2 c) parent = Some g"
  shows "Size2 (DelGroup c parent) = Size2 c - int (card (members2 c parent))"
  using assms by (simp add: card_members2 Size2_def DelGroup_def)

lemma Del2_absent: "Get2 c parent ident = None \<Longrightarrow> Del2 c parent ident = c"
  by (auto simp: Get2_def Del2_def del_def split: option.splits)

section \<open>Facts about the event controller\<close>

lemma map_of_fold_Delete:
  "map_of (ls (fold Delete ds c)) k = (if k \<in> set ds then None else map_of (ls c) k)"
  by (induction ds arbitrary: c) (auto simp: Delete_def delete_conv')

lemma removes_only_itselfD:
  assumes "removes_only_itself L" "map_of L k = Some g" "s \<in> set (unsubscribes g)"
  shows "s = k"
proof -
  from assms(2) have "(k, g) \<in> set L" by (rule map_of_SomeD)
  with assms(1) have "list_all (\<lambda>s. s = k) (unsubscribes g)"
    by (fastforce simp: removes_only_itself_def list_all_iff)
  with assms(3) show ?thesis by (simp add: list_all_iff)
qed

lemma Emit_range_bodies:
  assumes "distinct ks" "removes_only_itself L"
    and "\<forall>k \<in> set ks. map_of (ls (ec w)) k = map_of L k \<and> map_of L k \<noteq> None"
  shows "env_of (Emit_range ks t w) = run_bodies (map (\<lambda>k. the (map_of L k)) ks) t (env w)"
  using assms
proof (induction ks arbitrary: w)
  case Nil
  then show ?case by (simp add: env_of_def)
next
  case (Cons k ks)
  from Cons.prems(3) obtain g where g: "map_of L k = Some g" "map_of (ls (ec w)) k = Some g"
    by auto
  show ?case
  proof (cases "body g t (env w)")
    case (Inl p)
    with g show ?thesis by (simp add: call_def env_of_def)
  next
    case (Inr e)
    let ?w = "\<lparr>ec = fold Delete (unsubscribes g) (ec w), env = e\<rparr>"
    have "\<forall>j \<in> set ks. map_of (ls (ec ?w)) j = map_of L j \<and> map_of L j \<noteq> None"
    proof
      fix j assume j: "j \<in> set ks"
      with Cons.prems(1) have "j \<noteq> k" by auto
      then have "j \<notin> set (unsubscribes g)"
        using removes_only_itselfD [OF Cons.prems(2) g(1)] by blast
      with j Cons.prems(3) show "map_of (ls (ec ?w)) j = map_of L j \<and> map_of L j \<noteq> None"
        by (simp add: map_of_fold_Delete)
    qed
    with Cons.prems have "env_of (Emit_range ks t ?w)
        = run_bodies (map (\<lambda>k. the (map_of L k)) ks) t (env ?w)"
      by (intro Cons.IH) simp_all
    with g Inr show ?thesis by (simp add: call_def)
  qed
qed

lemma map_the_map_of:
  assumes "distinct (map fst L)"
  shows "map ((\<lambda>k. the (map_of L k)) \<circ> fst) L = map snd L"
proof -
  have "the (map_of L (fst x)) = snd x" if "x \<in> set L" for x
  proof -
    from that have "(fst x, snd x) \<in> set L" by simp
    with assms have "map_of L (fst x) = Some (snd x)" by (rule map_of_is_SomeI)
    then show ?thesis by simp
  qed
  then show ?thesis by simp
qed

lemma Emit_bodies:
  assumes "distinct (map fst (ls (ec w)))" "removes_only_itself (ls (ec w))"
  shows "env_of (Emit t w) = run_bodies (map snd (ls (ec w))) t (env w)"
proof -
  have "\<forall>k \<in> set (map fst (ls (ec w))).
          map_of (ls (ec w)) k = map_of (ls (ec w)) k \<and> map_of (ls (ec w)) k \<noteq> None"
    by (auto simp: map_of_eq_None_iff)
  with assms have "env_of (Emit_range (map fst (ls (ec w))) t w)
      = run_bodies (map (\<lambda>k. the (map_of (ls (ec w)) k)) (map fst (ls (ec w)))) t (env w)"
    by (intro Emit_range_bodies)
  with assms(1) show ?thesis by (simp add: Emit_def map_the_map_of)
qed

lemma Emit_range_registry:
  assumes "distinct ks" "removes_only_itself L"
    and "\<forall>k \<in> set ks. map_of (ls (ec w)) k = map_of L k \<and> map_of L k \<noteq> None"
    and "Emit_range ks t w = Inr w'"
  shows "map_of (ls (ec w')) j =
           (if j \<in> set ks \<and> j \<in> set (unsubscribes (the (map_of L j))) then None
            else map_of (ls (ec w)) j)"
  using assms
proof (induction ks arbitrary: w)
  case Nil
  then show ?case by simp
next
  case (Cons k ks)
  from Cons.prems(3) obtain g where g: "map_of L k = Some g" "map_of (ls (ec w)) k = Some g"
    by auto
  from Cons.prems(4) g obtain e where e: "body g t (env w) = Inr e"
    by (auto simp: call_def split: sum.splits)
  let ?w = "\<lparr>ec = fold Delete (unsubscribes g) (ec w), env = e\<rparr>"
  have only: "\<And>s. s \<in> set (unsubscribes g) \<Longrightarrow> s = k"
    using removes_only_itselfD [OF Cons.prems(2) g(1)] by blast
  have rest: "\<forall>j \<in> set ks. map_of (ls (ec ?w)) j = map_of L j \<and> map_of L j \<noteq> None"
  proof
    fix j assume j: "j \<in> set ks"
    with Cons.prems(1) have "j \<noteq> k" by auto
    then have "j \<notin> set (unsubscribes g)" using only by blast
    with j Cons.prems(3) show "map_of (ls (ec ?w)) j = map_of L j \<and> map_of L j \<noteq> None"
      by (simp add: map_of_fold_Delete)
  qed
  from Cons.prems(4) g e have run: "Emit_range ks t ?w = Inr w'" by (simp add: call_def)
  from Cons.prems(1,2) rest run
  have IH: "map_of (ls (ec w')) j =
           (if j \<in> set ks \<and> j \<in> set (unsubscribes (the (map_of L j))) then None
            else map_of (ls (ec ?w)) j)"
    by (intro Cons.IH) simp_all
  show ?case
  proof (cases "j = k")
    case True
    with Cons.prems(1) have "j \<notin> set ks" by auto
    with IH True g show ?thesis by (simp add: map_of_fold_Delete)
  next
    case False
    then have "j \<notin> set (unsubscribes g)" using only by blast
    with IH False show ?thesis by (simp add: map_of_fold_Delete)
  qed
qed

section \<open>Facts about the MessageUpdate frame\<close>

lemma body_reads_message:
  "body reads_message r s
     = Inr (s\<lparr>user := user s
              @ [map_option Content (Get2 (Messages s) (Channel r) (MessageID r))]\<rparr>)"
  by (simp add: reads_message_def)

lemma run_readers:
  "run_bodies (replicate n reads_message) r s
     = Inr (s\<lparr>user := user s
              @ replicate n (map_option Content (Get2 (Messages s) (Channel r) (MessageID r)))\<rparr>)"
proof (induction n arbitrary: s)
  case 0
  then show ?case by simp
next
  case (Suc n)
  show ?case
    by (simp add: body_reads_message Suc.IH)
qed

lemma Emit_readers:
  assumes "ls (ec w) = map (\<lambda>k. (k, reads_message)) ks" "distinct ks"
  shows "\<exists>y. Emit r w = Inr y
           \<and> env y = (env w)\<lparr>user := user (env w)
                @ replicate (length ks)
                    (map_option Content (Get2 (Messages (env w)) (Channel r) (MessageID r)))\<rparr>"
proof -
  have d: "distinct (map fst (ls (ec w)))" using assms by (simp add: comp_def)
  have o: "removes_only_itself (ls (ec w))"
    using assms(1) by (simp add: removes_only_itself_def list_all_iff reads_message_def)
  have "map snd (ls (ec w)) = replicate (length ks) reads_message"
    using assms(1) by (simp add: comp_def map_replicate_const)
  with Emit_bodies [OF d o, of r] have "env_of (Emit r w)
      = Inr ((env w)\<lparr>user := user (env w)
                @ replicate (length ks)
                    (map_option Content (Get2 (Messages (env w)) (Channel r) (MessageID r)))\<rparr>)"
    by (simp add: run_readers)
  then show ?thesis by (auto simp: env_of_def split: sum.splits)
qed

lemma Get2_after_update:
  assumes "Get2 c parent ident = Some m"
    and "PartiallyUpdate2 c parent ident (\<lambda>m u. Inr (f m, u)) () = Inr (c', u')"
  shows "Get2 c' parent ident = Some (f m)"
  using assms
  by (auto simp: Get2_def PartiallyUpdate2_def update_conv' split: option.splits)

lemma followUp_content:
  assumes "Get2 (Messages s) (Channel r) (MessageID r) = Some m"
    and "Data r = Some d" and "Content_p d = Some new"
  shows "\<exists>s'. MessageUpdate_followUp ToOptimized r s = Inr s'
           \<and> user s' = user s
           \<and> map_option Content (Get2 (Messages s') (Channel r) (MessageID r)) = Some new"
  using assms
  by (auto simp: MessageUpdate_followUp_def MessageUpdate_mutator_def Get2_def
                 PartiallyUpdate2_def update_conv' Let_def split: option.splits)

lemma MessageUpdate_readers_see_old:
  assumes "ls (ec w) = map (\<lambda>k. (k, reads_message)) ks" and "ks \<noteq> []" and "distinct ks"
    and "Get2 (Messages (env w)) (Channel r) (MessageID r) = Some m"
    and "Data r = Some d" and "Content_p d = Some new"
  shows "\<exists>g w'. process_MessageUpdate ToOptimized r w = (Inr w, [g])
           \<and> g w = Inr w'
           \<and> user (env w') = user (env w) @ replicate (length ks) (Some (Content m))
           \<and> map_option Content (Get2 (Messages (env w')) (Channel r) (MessageID r)) = Some new"
proof -
  let ?g = "\<lambda>x. case Emit r x of Inl p \<Rightarrow> Inl p
                 | Inr y \<Rightarrow> call_plain (MessageUpdate_followUp ToOptimized) r y"
  have spawn: "process_MessageUpdate ToOptimized r w = (Inr w, [?g])"
    using assms(1,2) by (simp add: process_MessageUpdate_def EmitAndCall_def)
  from Emit_readers [OF assms(1,3), of r] assms(4) obtain y where
    y: "Emit r w = Inr y"
       "env y = (env w)\<lparr>user := user (env w) @ replicate (length ks) (Some (Content m))\<rparr>"
    by auto
  from y(2) assms(4) have "Get2 (Messages (env y)) (Channel r) (MessageID r) = Some m" by simp
  from followUp_content [OF this assms(5,6), of ToOptimized] obtain s' where
    s': "MessageUpdate_followUp ToOptimized r (env y) = Inr s'" "user s' = user (env y)"
        "map_option Content (Get2 (Messages s') (Channel r) (MessageID r)) = Some new"
    by blast
  have "?g w = Inr (y\<lparr>env := s'\<rparr>)" using y(1) s'(1) by (simp add: call_plain_def)
  with spawn s' y(2) show ?thesis by auto
qed

section \<open>Facts about the patches\<close>

lemma bit_set_or_clear:
  fixes f K :: "'a::len word"
  shows "bit (if b then f OR K else f AND NOT K) n = (if bit K n then b else bit f n)"
  by (auto simp: bit_or_iff bit_and_iff bit_not_iff dest: bit_imp_le_length)

lemma ChannelUpdate_flags:
  assumes "Data_c r = Some d"
  shows "\<exists>c'. ChannelUpdate_mutator KA KN r c = Inr c'
          \<and> (\<forall>n. bit (Flags_c c') n
                  = patched_bit (NSFW d) KN n (patched_bit (Active d) KA n (bit (Flags_c c) n)))"
  using assms
  by (auto simp: ChannelUpdate_mutator_def Let_def patched_bit_def bit_or_iff bit_and_iff
        bit_not_iff split: option.splits dest: bit_imp_le_length)

lemma Flags_patch_user_flags: "Flags (patch_user_flags L d u) = user_flags_after L d (Flags u)"
  by (simp add: patch_user_flags_def user_flags_after_def Let_def split: option.splits)

lemma Flags_patch_user_status: "Flags (patch_user_status D d u) = Flags u"
  by (simp add: patch_user_status_def Let_def split: option.splits)

lemma Flags_patch_user_profile: "Flags (patch_user_profile D d u) = Flags u"
  by (simp add: patch_user_profile_def Let_def split: option.splits)

lemma Flags_patch_user_relations: "Flags (patch_user_relations D d u) = Flags u"
  by (simp add: patch_user_relations_def Let_def split: option.splits)

lemma Flags_clear_user_status: "Flags (clear_user_status D r u) = Flags u"
  by (simp add: clear_user_status_def Let_def)

lemma Flags_clear_user_profile: "Flags (clear_user_profile r u) = Flags u"
  by (simp add: clear_user_profile_def Let_def)

lemma UserUpdate_flags:
  assumes "Data_u r = Some d"
  shows "\<exists>u'. UserUpdate_mutator D L r u = Inr u' \<and> Flags u' = user_flags_after L d (Flags u)"
proof -
  have "Flags (let u = patch_user_flags L d u;
               u = (case Username_p d of None \<Rightarrow> u | Some n \<Rightarrow> u\<lparr>Username := n\<rparr>);
               u = patch_user_status D d u;
               u = patch_user_profile D d u;
               u = patch_user_relations D d u;
               u = (if IsAvatarRemoved r then u\<lparr>Avatar := None\<rparr> else u);
               u = clear_user_status D r u;
               u = clear_user_profile r u;
               u = (if IsDisplayNameRemoved r then u\<lparr>DisplayName := []\<rparr> else u)
           in u) = user_flags_after L d (Flags u)"
    by (cases "Username_p d")
       (simp_all add: Let_def Flags_patch_user_flags Flags_patch_user_status
          Flags_patch_user_profile Flags_patch_user_relations Flags_clear_user_status
          Flags_clear_user_profile)
  with assms show ?thesis by (simp add: UserUpdate_mutator_def Let_def)
qed

lemma bit_updateBadges:
  "bit (updateBadges L y f) n = (if bit (BadgesMask L) n then bit (badges_bits L y) n else bit f n)"
  by (auto simp: updateBadges_def bit_or_iff bit_and_iff bit_not_iff dest: bit_imp_le_length)

lemma bit_updateFlags:
  "bit (updateFlags L y f) n = (if bit (FlagsMask L) n then bit (flags_bits L y) n else bit f n)"
  by (auto simp: updateFlags_def bit_or_iff bit_and_iff bit_not_iff dest: bit_imp_le_length)

lemma user_flags_after_untouched:
  "\<not> touched L d n \<Longrightarrow> bit (user_flags_after L d f) n = bit f n"
  by (auto simp: user_flags_after_def touched_def Let_def bit_updateBadges bit_updateFlags
        bit_set_or_clear split: option.splits)

lemma user_flags_after_online:
  "Online d = Some b \<Longrightarrow> bit (OptimizedUserFlagsOnline L) n \<Longrightarrow> bit (user_flags_after L d f) n = b"
  by (simp add: user_flags_after_def Let_def bit_set_or_clear)

lemma disjoint_masks:
  fixes K M :: "'a::len word"
  shows "K AND M = 0 \<Longrightarrow> bit K n \<Longrightarrow> \<not> bit M n"
  by (metis bit_0_eq bit_and_iff bot_apply bot_bool_def)

lemma badges_only:
  fixes L :: "('a::len word, 'b, 'uf) user_flags_layout"
  assumes "Flags_p d = None" "Online d = None" "K AND BadgesMask L = 0"
  shows "user_flags_after L d f AND K = f AND K"
proof (rule bit_eqI)
  fix n
  show "bit (user_flags_after L d f AND K) n = bit (f AND K) n"
  proof (cases "bit K n")
    case True
    with assms(3) have "\<not> bit (BadgesMask L) n" by (rule disjoint_masks)
    with assms(1,2) have "\<not> touched L d n" by (simp add: touched_def)
    then show ?thesis by (simp add: bit_and_iff user_flags_after_untouched)
  next
    case False
    then show ?thesis by (simp add: bit_and_iff)
  qed
qed

section \<open>Claims about the caches\<close>

text \<open>
  Claim C5.  A single-keyed cache with \<open>MaxSize = N > 0\<close> and no checker, empty at the
  start: after any run of \<open>Set\<close> calls, whatever the runtime evicts, \<open>Size()\<close> is at
  most \<open>N\<close>.  Once the cache is full, a further \<open>Set\<close> changes nothing when
  \<open>DontInsertIfOverflow\<close> is set, and otherwise deletes one entry that was present and
  then stores the new entity.
\<close>

theorem Cache1_eviction_bound:
  assumes "MaxSize c = N" and "0 < N" and "Checker c = None" and "Cache c = []"
  shows "Size (Set1_all GetKey c ops) \<le> N
       \<and> (N \<le> Size (Set1_all GetKey c ops) \<longrightarrow>
            (if DontInsertIfOverflow (Set1_all GetKey c ops)
             then Set1 GetKey pick (Set1_all GetKey c ops) v = Set1_all GetKey c ops
             else \<exists>k. Get (Set1_all GetKey c ops) k \<noteq> None
                    \<and> Cache (Set1 GetKey pick (Set1_all GetKey c ops) v)
                        = AList.update (GetKey v) v (AList.delete k (Cache (Set1_all GetKey c ops)))))"
proof -
  let ?c = "Set1_all GetKey c ops"
  have bound: "Size ?c \<le> N"
    using Set1_all_bound [of c GetKey ops] assms by simp
  have cfg: "MaxSize ?c = N" "Checker ?c = None"
    using assms by (simp_all add: Set1_all_config)
  have "Set1 GetKey pick ?c v = ?c" if "N \<le> Size ?c" "DontInsertIfOverflow ?c"
    using that cfg assms(2) by (intro Set1_reject) simp_all
  moreover have "\<exists>k. Get ?c k \<noteq> None
      \<and> Cache (Set1 GetKey pick ?c v) = AList.update (GetKey v) v (AList.delete k (Cache ?c))"
    if "N \<le> Size ?c" "\<not> DontInsertIfOverflow ?c"
    using that cfg assms(2) by (intro Set1_evict) simp_all
  ultimately show ?thesis using bound by simp
qed

theorem Cache1_eviction_bound_witness:
  "Size (Set1_all fst small_cache [(0, (''a'', ''x'')), (0, (''b'', ''y'')), (1, (''c'', ''z''))]) \<le> 2
   \<and> Get (Set1_all fst small_cache [(0, (''a'', ''x'')), (0, (''b'', ''y'')), (1, (''c'', ''z''))]) ''c'' = Some (''c'', ''z'')
   \<and> Size (Set1_all fst small_cache [(0, (''a'', ''x'')), (0, (''b'', ''y'')), (1, (''c'', ''z''))]) = 2"
proof -
  have "Size (Set1_all fst small_cache [(0, (''a'', ''x'')), (0, (''b'', ''y'')), (1, (''c'', ''z''))]) \<le> 2"
    using Cache1_eviction_bound [of small_cache 2 fst "[(0, (''a'', ''x'')), (0, (''b'', ''y'')), (1, (''c'', ''z''))]"]
    by (simp add: small_cache_def)
  moreover have "Cache (Set1_all fst small_cache [(0, (''a'', ''x'')), (0, (''b'', ''y'')), (1, (''c'', ''z''))])
      = [(''a'', (''a'', ''x'')), (''c'', (''c'', ''z''))]"
    by (simp add: small_cache_def Set1_def resize_def range_first_def)
  ultimately show ?thesis by (simp add: Get_def Size_def)
qed

text \<open>
  Claim C3, evaluated on the code.  A parent-scoped cache whose only limit is
  \<open>TotalMaxSize = 1\<close>: two \<open>Set\<close> calls with two keys leave both entities in the
  cache and \<open>Size()\<close> is 2.  Neither case of the \<open>switch\<close> in \<open>resize\<close> is taken
  when \<open>TotalMaxSize\<close> is positive and \<open>MaxSize1\<close> is zero, so nothing is evicted.
\<close>

theorem Cache2_total_cap_exceeded:
  "TotalMaxSize capped2 = 1
   \<and> Size2 (Set2 fst no_picks (Set2 fst no_picks capped2 ''p'' (''a'', ''x'')) ''p'' (''b'', ''y'')) = 2
   \<and> Get2 (Set2 fst no_picks (Set2 fst no_picks capped2 ''p'' (''a'', ''x'')) ''p'' (''b'', ''y'')) ''p'' ''a''
       = Some (''a'', ''x'')
   \<and> Get2 (Set2 fst no_picks (Set2 fst no_picks capped2 ''p'' (''a'', ''x'')) ''p'' (''b'', ''y'')) ''p'' ''b''
       = Some (''b'', ''y'')"
  by (simp add: capped2_def Set2_def resize2_def ins_def Size2_def Get2_def Let_def)

text \<open>
  Claim C6.  In every state of a parent-scoped cache that its operations reach,
  \<open>Size()\<close> is the number of pairs of a parent and an identifier that \<open>Get\<close> finds.
  \<open>DelGroup\<close> of a present parent lowers \<open>GroupsCount()\<close> by one and \<open>Size()\<close> by the
  number of members that parent had, and \<open>Size()\<close> still counts the entries afterwards.
  \<open>Del\<close> of an absent entry changes nothing.
\<close>

theorem Cache2_Size_is_entry_count:
  assumes "reachable2 GetKey c"
  shows "Size2 c = int (card (entries2 c))
       \<and> (\<forall>parent. map_of (Cache2 c) parent \<noteq> None \<longrightarrow>
             GroupsCount (DelGroup c parent) = GroupsCount c - 1
           \<and> Size2 (DelGroup c parent) = Size2 c - int (card (members2 c parent))
           \<and> Size2 (DelGroup c parent) = int (card (entries2 (DelGroup c parent))))
       \<and> (\<forall>parent ident. Get2 c parent ident = None \<longrightarrow>
             Del2 c parent ident = c \<and> Size2 (Del2 c parent ident) = Size2 c)"
proof -
  from assms have wf: "wf2 c" by (rule reachable2_wf2)
  have 1: "Size2 c = int (card (entries2 c))" using wf by (rule wf2_Size2)
  have 2: "GroupsCount (DelGroup c parent) = GroupsCount c - 1
           \<and> Size2 (DelGroup c parent) = Size2 c - int (card (members2 c parent))
           \<and> Size2 (DelGroup c parent) = int (card (entries2 (DelGroup c parent)))"
    if "map_of (Cache2 c) parent \<noteq> None" for parent
  proof -
    from that obtain g where g: "map_of (Cache2 c) parent = Some g" by auto
    have "wf2 (DelGroup c parent)" using wf by (rule wf2_DelGroup)
    then have "Size2 (DelGroup c parent) = int (card (entries2 (DelGroup c parent)))"
      by (rule wf2_Size2)
    with GroupsCount_DelGroup [OF wf g] Size2_DelGroup [OF wf g] show ?thesis by simp
  qed
  have 3: "Del2 c parent ident = c \<and> Size2 (Del2 c parent ident) = Size2 c"
    if "Get2 c parent ident = None" for parent ident
    using that by (simp add: Del2_absent)
  from 1 2 3 show ?thesis by blast
qed

theorem Cache2_Size_is_entry_count_witness:
  "Size2 (Set2 fst no_picks (Set2 fst no_picks unlimited2 ''p'' (''a'', ''x'')) ''q'' (''b'', ''y''))
     = int (card (entries2 (Set2 fst no_picks (Set2 fst no_picks unlimited2 ''p'' (''a'', ''x'')) ''q'' (''b'', ''y''))))
   \<and> Size2 (Set2 fst no_picks (Set2 fst no_picks unlimited2 ''p'' (''a'', ''x'')) ''q'' (''b'', ''y'')) = 2
   \<and> GroupsCount (DelGroup (Set2 fst no_picks (Set2 fst no_picks unlimited2 ''p'' (''a'', ''x'')) ''q'' (''b'', ''y'')) ''p'') = 1
   \<and> Size2 (DelGroup (Set2 fst no_picks (Set2 fst no_picks unlimited2 ''p'' (''a'', ''x'')) ''q'' (''b'', ''y'')) ''p'') = 1
   \<and> Size2 (Del2 (Set2 fst no_picks (Set2 fst no_picks unlimited2 ''p'' (''a'', ''x'')) ''q'' (''b'', ''y'')) ''p'' ''zz'') = 2"
proof -
  let ?c = "Set2 fst no_picks (Set2 fst no_picks unlimited2 ''p'' (''a'', ''x'')) ''q'' (''b'', ''y'')"
  have r: "reachable2 fst ?c"
    by (intro r_Set r_init) (simp_all add: unlimited2_def)
  have c: "?c = unlimited2\<lparr>total := 2, Cache2 := [(''p'', [(''a'', (''a'', ''x''))]), (''q'', [(''b'', (''b'', ''y''))])]\<rparr>"
    by (simp add: unlimited2_def Set2_def resize2_def ins_def evict_member_or_group_def)
  have p: "map_of (Cache2 ?c) ''p'' \<noteq> None" by (simp add: c)
  have a: "Get2 ?c ''p'' ''zz'' = None" by (simp add: c Get2_def)
  from Cache2_Size_is_entry_count [OF r] p a
  have "Size2 ?c = int (card (entries2 ?c))"
    and "GroupsCount (DelGroup ?c ''p'') = GroupsCount ?c - 1"
    and "Size2 (DelGroup ?c ''p'') = Size2 ?c - int (card (members2 ?c ''p''))"
    and "Size2 (Del2 ?c ''p'' ''zz'') = Size2 ?c"
    by blast+
  moreover have "Size2 ?c = 2" "GroupsCount ?c = 2" by (simp_all add: c Size2_def GroupsCount_def)
  moreover have "Size2 (DelGroup ?c ''p'') = 1" by (simp add: c Size2_def DelGroup_def)
  ultimately show ?thesis by simp
qed

text \<open>
  Claim C9.  \<open>PartiallyUpdate\<close> on a key that \<open>Get\<close> does not find, in either cache,
  returns the cache and the closure's environment as they were, for every closure: no
  entry is created and the closure is not called (a closure that would panic or change
  its environment has no effect).
\<close>

theorem PartiallyUpdate_absent:
  "(Get c ident = None \<longrightarrow> PartiallyUpdate c ident updater w = Inr (c, w))
   \<and> (Get2 c2 parent ident2 = None \<longrightarrow> PartiallyUpdate2 c2 parent ident2 updater2 w2 = Inr (c2, w2))"
  by (auto simp: Get_def Get2_def PartiallyUpdate_def PartiallyUpdate2_def split: option.splits)

theorem PartiallyUpdate_absent_witness:
  "PartiallyUpdate (Set1 fst 0 small_cache (''a'', ''x'')) ''b'' (\<lambda>x w. Inl (Panic ''called'')) (0::nat)
     = Inr (Set1 fst 0 small_cache (''a'', ''x''), 0)
   \<and> PartiallyUpdate2 (Set2 fst no_picks unlimited2 ''p'' (''a'', ''x'')) ''p'' ''b''
        (\<lambda>x w. Inl (Panic ''called'')) (0::nat)
     = Inr (Set2 fst no_picks unlimited2 ''p'' (''a'', ''x''), 0)"
proof -
  have 1: "Get (Set1 fst 0 small_cache (''a'', ''x'')) ''b'' = None"
    by (simp add: Get_def Set1_def resize_def small_cache_def)
  have 2: "Get2 (Set2 fst no_picks unlimited2 ''p'' (''a'', ''x'')) ''p'' ''b'' = None"
    by (simp add: Get2_def Set2_def resize2_def unlimited2_def ins_def evict_member_or_group_def Let_def)
  from 1 2 PartiallyUpdate_absent
    [of "Set1 fst 0 small_cache (''a'', ''x'')" "''b''" "\<lambda>x w. Inl (Panic ''called'')" "0::nat"
        "Set2 fst no_picks unlimited2 ''p'' (''a'', ''x'')" "''p''" "''b''"
        "\<lambda>x w. Inl (Panic ''called'')" "0::nat"]
  show ?thesis by simp
qed

section \<open>Claims about the event controller\<close>

text \<open>
  Claim C8.  In a controller whose closures remove no subscription but their own, an
  emission runs the body of every registered closure exactly once, in the order of the
  range, whether or not a closure deletes its own subscription while it is invoked; the
  emission fails only when a body panics.  After the emission a closure that deleted
  itself is gone and every other one is still registered.  \<open>Delete\<close> of a subscription
  that was removed already changes nothing.
\<close>

theorem Emit_self_removal:
  assumes "distinct (map fst (ls (ec w)))" and "removes_only_itself (ls (ec w))"
  shows "env_of (Emit t w) = run_bodies (map snd (ls (ec w))) t (env w)
       \<and> (\<forall>w' k g. Emit t w = Inr w' \<longrightarrow> map_of (ls (ec w)) k = Some g \<longrightarrow>
             map_of (ls (ec w')) k = (if k \<in> set (unsubscribes g) then None else Some g))
       \<and> Delete s (Delete s c) = Delete s c
       \<and> (map_of (ls c) s = None \<longrightarrow> Delete s c = c)"
proof -
  have ks: "\<forall>k \<in> set (map fst (ls (ec w))).
          map_of (ls (ec w)) k = map_of (ls (ec w)) k \<and> map_of (ls (ec w)) k \<noteq> None"
    by (auto simp: map_of_eq_None_iff)
  have 1: "env_of (Emit t w) = run_bodies (map snd (ls (ec w))) t (env w)"
    using assms by (rule Emit_bodies)
  have 2: "map_of (ls (ec w')) k = (if k \<in> set (unsubscribes g) then None else Some g)"
    if run: "Emit t w = Inr w'" and g: "map_of (ls (ec w)) k = Some g" for w' k g
  proof -
    from g have "k \<in> set (map fst (ls (ec w)))"
      by (metis domI dom_map_of_conv_image_fst list.set_map)
    moreover from run have "Emit_range (map fst (ls (ec w))) t w = Inr w'" by (simp add: Emit_def)
    with assms ks have "map_of (ls (ec w')) k =
           (if k \<in> set (map fst (ls (ec w))) \<and> k \<in> set (unsubscribes (the (map_of (ls (ec w)) k)))
            then None else map_of (ls (ec w)) k)"
      by (intro Emit_range_registry)
    ultimately show ?thesis using g by simp
  qed
  have 3: "Delete s (Delete s c) = Delete s c" by (simp add: Delete_def delete_idem)
  have 4: "Delete s c = c" if "map_of (ls c) s = None"
    using that by (simp add: Delete_def map_of_eq_None_iff)
  from 1 2 3 4 show ?thesis by blast
qed

theorem Emit_self_removal_witness:
  "env_of (Emit () abc_world) = Inr [''A'', ''B'', ''C'']
   \<and> map (map_option (\<lambda>g. body g () [])) (case Emit () abc_world of Inl p \<Rightarrow> [] | Inr w' \<Rightarrow> map (map_of (ls (ec w'))) [1, 2, 3])
       = [Some (Inr [''A'']), None, Some (Inr [''C''])]
   \<and> Delete 2 (Delete 2 (ec abc_world)) = Delete 2 (ec abc_world)"
proof -
  have d: "distinct (map fst (ls (ec abc_world)))" by (simp add: abc_world_def)
  have r: "removes_only_itself (ls (ec abc_world))"
    by (simp add: abc_world_def removes_only_itself_def logs_name_def)
  from Emit_self_removal [OF d r, of "()" 2 "ec abc_world"]
  have "env_of (Emit () abc_world) = run_bodies (map snd (ls (ec abc_world))) () (env abc_world)"
    and "Delete 2 (Delete 2 (ec abc_world)) = Delete 2 (ec abc_world)"
    by blast+
  moreover have "run_bodies (map snd (ls (ec abc_world))) () (env abc_world) = Inr [''A'', ''B'', ''C'']"
    by (simp add: abc_world_def logs_name_def)
  moreover have "Emit () abc_world
      = Inr \<lparr>ec = \<lparr>ls = [(1, logs_name ''A'' []), (3, logs_name ''C'' [])], id_ec = 3\<rparr>, env = [''A'', ''B'', ''C'']\<rparr>"
    by (simp add: abc_world_def logs_name_def Emit_def call_def Delete_def)
  ultimately show ?thesis by (simp add: logs_name_def)
qed

text \<open>
  Claim C1, as the code has it.  With no subscriber registered, the MessageUpdate case
  applies the patch to the cache at once.  With subscribers registered it changes
  nothing at once and starts one goroutine, which runs the whole emission and applies
  the patch to the world that the emission leaves: the subscribers run first, the cache
  is patched after the last of them has returned.  With subscribers that read the
  message of the event from the cache, every one of them sees the content from before
  the patch, and the cache holds the new content when the goroutine ends.
\<close>

theorem MessageUpdate_subscribers_first:
  "(ls (ec w) = [] \<longrightarrow>
      process_MessageUpdate ToOptimized r w
        = (call_plain (MessageUpdate_followUp ToOptimized) r w, []))
   \<and> (ls (ec w) \<noteq> [] \<longrightarrow>
        (\<exists>g. process_MessageUpdate ToOptimized r w = (Inr w, [g])
           \<and> (\<forall>x. g x = (case Emit r x of
                             Inl p \<Rightarrow> Inl p
                           | Inr y \<Rightarrow> call_plain (MessageUpdate_followUp ToOptimized) r y))))
   \<and> (ls (ec w) = map (\<lambda>k. (k, reads_message)) ks \<and> ks \<noteq> [] \<and> distinct ks
        \<and> Get2 (Messages (env w)) (Channel r) (MessageID r) = Some m
        \<and> Data r = Some d \<and> Content_p d = Some new \<longrightarrow>
        (\<exists>g w'. process_MessageUpdate ToOptimized r w = (Inr w, [g])
           \<and> g w = Inr w'
           \<and> user (env w') = user (env w) @ replicate (length ks) (Some (Content m))
           \<and> map_option Content (Get2 (Messages (env w')) (Channel r) (MessageID r)) = Some new))"
proof (intro conjI impI)
  assume "ls (ec w) = []"
  then show "process_MessageUpdate ToOptimized r w
        = (call_plain (MessageUpdate_followUp ToOptimized) r w, [])"
    by (simp add: process_MessageUpdate_def EmitAndCall_def)
next
  assume "ls (ec w) \<noteq> []"
  then have "process_MessageUpdate ToOptimized r w
      = (Inr w, [\<lambda>x. case Emit r x of Inl p \<Rightarrow> Inl p
                       | Inr y \<Rightarrow> call_plain (MessageUpdate_followUp ToOptimized) r y])"
    by (simp add: process_MessageUpdate_def EmitAndCall_def)
  then show "\<exists>g. process_MessageUpdate ToOptimized r w = (Inr w, [g])
           \<and> (\<forall>x. g x = (case Emit r x of
                             Inl p \<Rightarrow> Inl p
                           | Inr y \<Rightarrow> call_plain (MessageUpdate_followUp ToOptimized) r y))"
    by simp
next
  assume a: "ls (ec w) = map (\<lambda>k. (k, reads_message)) ks \<and> ks \<noteq> [] \<and> distinct ks
        \<and> Get2 (Messages (env w)) (Channel r) (MessageID r) = Some m
        \<and> Data r = Some d \<and> Content_p d = Some new"
  then have 1: "ls (ec w) = map (\<lambda>k. (k, reads_message)) ks" and 2: "ks \<noteq> []"
    and 3: "distinct ks" and 4: "Get2 (Messages (env w)) (Channel r) (MessageID r) = Some m"
    and 5: "Data r = Some d" and 6: "Content_p d = Some new"
    by blast+
  from 1 2 3 4 5 6
  show "\<exists>g w'. process_MessageUpdate ToOptimized r w = (Inr w, [g])
           \<and> g w = Inr w'
           \<and> user (env w') = user (env w) @ replicate (length ks) (Some (Content m))
           \<and> map_option Content (Get2 (Messages (env w')) (Channel r) (MessageID r)) = Some new"
    by (rule MessageUpdate_readers_see_old)
qed

theorem MessageUpdate_subscribers_first_witness:
  "\<exists>g w'. process_MessageUpdate id bye_update one_reader = (Inr one_reader, [g])
      \<and> g one_reader = Inr w'
      \<and> user (env w') = [Some ''hi'']
      \<and> map_option Content (Get2 (Messages (env w')) ''c1'' ''m1'') = Some ''bye''"
proof -
  have pre: "ls (ec one_reader) = map (\<lambda>k. (k, reads_message)) [1] \<and> [1::int] \<noteq> [] \<and> distinct [1::int]
      \<and> Get2 (Messages (env one_reader)) (Channel bye_update) (MessageID bye_update) = Some hi_message
      \<and> Data bye_update = Some \<lparr>Content_p = Some ''bye'', Embeds_p = None\<rparr>
      \<and> Content_p \<lparr>Content_p = Some ''bye'', Embeds_p = None :: nat list option\<rparr> = Some ''bye''"
    by (simp add: one_reader_def bye_update_def message_cache_def Get2_def)
  from MessageUpdate_subscribers_first
    [of one_reader id bye_update "[1]" hi_message "\<lparr>Content_p = Some ''bye'', Embeds_p = None\<rparr>" "''bye''",
     THEN conjunct2, THEN conjunct2, THEN mp, OF pre]
  show ?thesis by (simp add: one_reader_def bye_update_def hi_message_def)
qed

text \<open>
  Claim C1 as stated fails: the cached content is \<open>hi\<close>, the frame carries \<open>bye\<close>,
  and the subscriber records \<open>hi\<close>; the cache holds \<open>bye\<close> only afterwards.
\<close>

theorem MessageUpdate_subscriber_sees_old_content:
  "fst (process_MessageUpdate id bye_update one_reader) = Inr one_reader
   \<and> env_of (run_goroutines (snd (process_MessageUpdate id bye_update one_reader)) one_reader)
     = Inr \<lparr>Messages = message_cache\<lparr>Cache2 := [(''c1'', [(''m1'', hi_message\<lparr>Content := ''bye''\<rparr>)])]\<rparr>,
            user = [Some ''hi'']\<rparr>"
  by (simp add: process_MessageUpdate_def EmitAndCall_def one_reader_def bye_update_def
        message_cache_def hi_message_def reads_message_def Emit_def call_def call_plain_def
        MessageUpdate_followUp_def MessageUpdate_mutator_def PartiallyUpdate2_def Get2_def
        env_of_def)

section \<open>Claims about the read loop\<close>




text \<open>
  Claim C4, evaluated on the code.  The loop reads bytes that are not JSON and then a
  Pong: the first frame leaves no trace at all (no error is emitted), the Pong is
  processed.  The loop reads the object \<open>{"id":"01H"}\<close> and then a Pong: \<open>process\<close>
  panics on the first frame and the Pong is never processed.  Only a frame that fails
  its typed decoder is treated as the claim says: the error is emitted and the next
  frame is processed.
\<close>

theorem listener_malformed_frames:
  "listener plain_handlers False [text_turn not_json, text_turn pong]
     = Inr [Raw_EmitInGoroutines, set_lastPingRes]
   \<and> listener plain_handlers False [text_turn no_type, text_turn pong]
     = Inl (Panic ''interface conversion'')
   \<and> listener plain_handlers False [text_turn bad_pong, text_turn pong]
     = Inr [Raw_EmitInGoroutines, emitError, Raw_EmitInGoroutines, set_lastPingRes]"
  by (simp add: text_turn_def not_json_def no_type_def pong_def bad_pong_def)

text \<open>
  Claim C2, evaluated on the code.  The listener passes the test of \<open>socket.closed\<close>
  and blocks in \<open>ReadMessage\<close>; \<open>Close()\<close> is called; the read returns an error
  (after the close frame of the peer, or after a failure of the transport).  The
  listener calls \<open>Open\<close>.  The close handler, for its part, does nothing once the
  socket is closed.
\<close>

theorem listener_reconnects_after_Close:
  "listener H False [\<lparr>Close_before = False, Close_during = True, ReadMessage = CloseFrame,
                       pinger_receives = pr, Handler_Open_fails = hf, Open_fails = False\<rparr>]
     = Inr [Error_Emit, Sleep_3s, Open]
   \<and> listener H False [\<lparr>Close_before = False, Close_during = True, ReadMessage = ReadError,
                         pinger_receives = pr, Handler_Open_fails = hf, Open_fails = False\<rparr>]
     = Inr [Error_Emit, Sleep_3s, Open]
   \<and> CloseHandler True t = ([], True)"
  by (simp add: CloseHandler_def)

section \<open>Claims about the patches\<close>

text \<open>
  Claim C7.  A ChannelUpdate patch leaves every bit of the channel's flags as it was,
  except that a present \<open>active\<close> (then a present \<open>NSFW\<close>) sets or clears the bits of
  its constant.  A UserUpdate patch leaves every bit of the user's flags as it was
  outside the fields of the values it carries, and a present \<open>online\<close> sets or clears
  the bits of the online constant.  A patch that carries badges and neither user flags
  nor \<open>online\<close> leaves the online bit and the bits of the user flags untouched, when
  these do not overlap the bits of the badges.
\<close>

theorem patch_touches_only_its_bits:
  fixes L :: "('a::len word, 'b, 'uf) user_flags_layout"
    and KA KN :: "'c::len word"
  shows "(Data_c rc = Some dc \<longrightarrow>
            (\<exists>c'. ChannelUpdate_mutator KA KN rc c = Inr c'
               \<and> (\<forall>n. bit (Flags_c c') n
                       = patched_bit (NSFW dc) KN n (patched_bit (Active dc) KA n (bit (Flags_c c) n)))))
       \<and> (Data_u ru = Some d \<longrightarrow>
            (\<exists>u'. UserUpdate_mutator D L ru u = Inr u'
               \<and> (\<forall>n. \<not> touched L d n \<longrightarrow> bit (Flags u') n = bit (Flags u) n)
               \<and> (\<forall>b n. Online d = Some b \<longrightarrow> bit (OptimizedUserFlagsOnline L) n \<longrightarrow>
                      bit (Flags u') n = b)
               \<and> (Flags_p d = None \<and> Online d = None
                    \<and> OptimizedUserFlagsOnline L AND BadgesMask L = 0
                    \<and> FlagsMask L AND BadgesMask L = 0 \<longrightarrow>
                      Flags u' AND OptimizedUserFlagsOnline L = Flags u AND OptimizedUserFlagsOnline L
                    \<and> Flags u' AND FlagsMask L = Flags u AND FlagsMask L)))"
proof -
  have ch: "\<exists>c'. ChannelUpdate_mutator KA KN rc c = Inr c'
               \<and> (\<forall>n. bit (Flags_c c') n
                       = patched_bit (NSFW dc) KN n (patched_bit (Active dc) KA n (bit (Flags_c c) n)))"
    if "Data_c rc = Some dc"
    using that by (rule ChannelUpdate_flags)
  have us: "\<exists>u'. UserUpdate_mutator D L ru u = Inr u'
               \<and> (\<forall>n. \<not> touched L d n \<longrightarrow> bit (Flags u') n = bit (Flags u) n)
               \<and> (\<forall>b n. Online d = Some b \<longrightarrow> bit (OptimizedUserFlagsOnline L) n \<longrightarrow>
                      bit (Flags u') n = b)
               \<and> (Flags_p d = None \<and> Online d = None
                    \<and> OptimizedUserFlagsOnline L AND BadgesMask L = 0
                    \<and> FlagsMask L AND BadgesMask L = 0 \<longrightarrow>
                      Flags u' AND OptimizedUserFlagsOnline L = Flags u AND OptimizedUserFlagsOnline L
                    \<and> Flags u' AND FlagsMask L = Flags u AND FlagsMask L)"
    if "Data_u ru = Some d"
  proof -
    from UserUpdate_flags [OF that, of D L u] obtain u' where
      u': "UserUpdate_mutator D L ru u = Inr u'" "Flags u' = user_flags_after L d (Flags u)"
      by blast
    have "\<forall>n. \<not> touched L d n \<longrightarrow> bit (Flags u') n = bit (Flags u) n"
      by (simp add: u'(2) user_flags_after_untouched)
    moreover have "\<forall>b n. Online d = Some b \<longrightarrow> bit (OptimizedUserFlagsOnline L) n \<longrightarrow>
                      bit (Flags u') n = b"
      by (simp add: u'(2) user_flags_after_online)
    moreover have "Flags u' AND OptimizedUserFlagsOnline L = Flags u AND OptimizedUserFlagsOnline L
                    \<and> Flags u' AND FlagsMask L = Flags u AND FlagsMask L"
      if "Flags_p d = None \<and> Online d = None
                    \<and> OptimizedUserFlagsOnline L AND BadgesMask L = 0
                    \<and> FlagsMask L AND BadgesMask L = 0"
      using that by (simp add: u'(2) badges_only)
    ultimately show ?thesis using u'(1) by blast
  qed
  from ch us show ?thesis by blast
qed

theorem patch_touches_only_its_bits_witness:
  "(\<exists>c'. ChannelUpdate_mutator 1 2 active_patch quiet_channel = Inr c'
       \<and> bit (Flags_c c') 0 \<and> bit (Flags_c c') 1 \<and> Flags_c c' = 3)
   \<and> (\<exists>u'. UserUpdate_mutator plain_conversions byte_layout badges_patch online_user = Inr u'
       \<and> Flags u' AND 1 = 1 \<and> Flags u' AND 48 = 32 \<and> Flags u' = 43)"
proof -
  have dc: "Data_c active_patch = Some active_data" by (simp add: active_patch_def)
  have du: "Data_u badges_patch = Some badges_data" by (simp add: badges_patch_def)
  note T = patch_touches_only_its_bits [of active_patch active_data 1 2 quiet_channel
      badges_patch badges_data plain_conversions byte_layout online_user]
  note Tc = T [THEN conjunct1, THEN mp, OF dc]
  note Tu = T [THEN conjunct2, THEN mp, OF du]
  from Tc obtain c' where
    c': "ChannelUpdate_mutator 1 2 active_patch quiet_channel = Inr c'"
        "\<forall>n. bit (Flags_c c') n
             = patched_bit (NSFW active_data) (2 :: 8 word) n
                 (patched_bit (Active active_data) (1 :: 8 word) n (bit (Flags_c quiet_channel) n))"
    by (elim exE conjE)
  have b0: "bit (Flags_c c') 0" and b1: "bit (Flags_c c') 1"
    by (simp_all add: c'(2) patched_bit_def active_data_def quiet_channel_def)
  have ev: "ChannelUpdate_mutator 1 2 active_patch quiet_channel = Inr (quiet_channel\<lparr>Flags_c := 3\<rparr>)"
    by (simp add: ChannelUpdate_mutator_def active_patch_def active_data_def quiet_channel_def
          IsDescriptionCleared_def IsIconRemoved_def IsDefaultPermissionsWereRemoved_def)
  have "c' = quiet_channel\<lparr>Flags_c := 3\<rparr>" using c'(1) unfolding ev by simp
  then have c3: "Flags_c c' = 3" by simp
  have pre: "Flags_p badges_data = None \<and> Online badges_data = None
      \<and> OptimizedUserFlagsOnline byte_layout AND BadgesMask byte_layout = 0
      \<and> FlagsMask byte_layout AND BadgesMask byte_layout = 0"
    by (simp add: badges_data_def byte_layout_def)
  from Tu obtain u' where
    u1: "UserUpdate_mutator plain_conversions byte_layout badges_patch online_user = Inr u'"
    and u2: "Flags_p badges_data = None \<and> Online badges_data = None
      \<and> OptimizedUserFlagsOnline byte_layout AND BadgesMask byte_layout = 0
      \<and> FlagsMask byte_layout AND BadgesMask byte_layout = 0 \<longrightarrow>
        Flags u' AND OptimizedUserFlagsOnline byte_layout
           = Flags online_user AND OptimizedUserFlagsOnline byte_layout
        \<and> Flags u' AND FlagsMask byte_layout = Flags online_user AND FlagsMask byte_layout"
    by (elim exE conjE)
  from u2 [THEN mp, OF pre] u1 have
    u': "UserUpdate_mutator plain_conversions byte_layout badges_patch online_user = Inr u'"
        "Flags u' AND OptimizedUserFlagsOnline byte_layout
           = Flags online_user AND OptimizedUserFlagsOnline byte_layout"
        "Flags u' AND FlagsMask byte_layout = Flags online_user AND FlagsMask byte_layout"
    by simp_all
  have k: "Flags u' AND 1 = 1" "Flags u' AND 48 = 32"
    using u'(2,3) by (simp_all add: byte_layout_def online_user_def)
  from UserUpdate_flags [OF du, of plain_conversions byte_layout online_user] u'(1)
  have "Flags u' = user_flags_after byte_layout badges_data (Flags online_user)" by simp
  also have "\<dots> = 43"
    by (simp add: user_flags_after_def updateBadges_def byte_layout_def badges_data_def
          online_user_def)
  finally have "Flags u' = 43" .
  with u'(1) k have "\<exists>u'. UserUpdate_mutator plain_conversions byte_layout badges_patch online_user = Inr u'
       \<and> Flags u' AND 1 = 1 \<and> Flags u' AND 48 = 32 \<and> Flags u' = 43"
    by (intro exI [of _ u'] conjI)
  moreover from c'(1) b0 b1 c3 have "\<exists>c'. ChannelUpdate_mutator 1 2 active_patch quiet_channel = Inr c'
       \<and> bit (Flags_c c') 0 \<and> bit (Flags_c c') 1 \<and> Flags_c c' = 3"
    by (intro exI [of _ c'] conjI)
  ultimately show ?thesis by (intro conjI)
qed

end
